theory Spec2Isabelle
  imports Main "HOL-Library.Sublist" "HOL-Library.Finite_Map" "HOL-Library.Char_ord"
    "HOL-Library.List_Lexorder"
begin

section \<open>firego: a REST client for Firebase\<close>

text \<open>
  A shallow embedding of \<^verbatim>\<open>firebase.go\<close>. Go strings and byte slices are byte sequences
  and are modelled as \<^typ>\<open>string\<close> (a list of 8-bit characters), so \<^term>\<open>length\<close> is
  Go's \<^verbatim>\<open>len\<close>.
\<close>

type_synonym bytes = string

type_synonym addr = nat

subsection \<open>Errors\<close>

text \<open>
  A Go \<^verbatim>\<open>error\<close> value, by dynamic type. \<^verbatim>\<open>ErrValueMissing\<close> is the package variable
  \<^verbatim>\<open>errors.New("firebase node missing")\<close>: a pointer of its own, different from the value
  of any other call of \<^verbatim>\<open>errors.New\<close>, hence a constructor of its own. \<^verbatim>\<open>NetError\<close> stands
  for any error whose type implements \<^verbatim>\<open>net.Error\<close> other than \<^verbatim>\<open>*url.Error\<close> (for example
  \<^verbatim>\<open>*net.OpError\<close>), with its message and the result of its \<^verbatim>\<open>Timeout()\<close> method.
  \<^verbatim>\<open>ErrTimeout\<close> is the struct of the package that embeds the error it wraps:
  \<^verbatim>\<open>
  type ErrTimeout struct {
      error
  }
  \<close>
  \<^verbatim>\<open>TimeoutOnlyError\<close> stands for any error whose type has a \<^verbatim>\<open>Timeout()\<close> method and
  does not implement \<^verbatim>\<open>net.Error\<close>, for want of \<^verbatim>\<open>Temporary()\<close> (for example
  \<^verbatim>\<open>*os.SyscallError\<close>), with its message and the result of \<^verbatim>\<open>Timeout()\<close>.
  \<^verbatim>\<open>ErrorString\<close> stands for every other error without further methods, and
  \<^verbatim>\<open>EscapeError\<close> is \<^verbatim>\<open>url.EscapeError\<close>. The \<^verbatim>\<open>Err\<close> of a \<^verbatim>\<open>*url.Error\<close> is taken
  not to be nil.
\<close>

datatype go_error =
    ErrValueMissing
  | ErrorString string
  | EscapeError string
  | NetError string bool
  | TimeoutOnlyError string bool
  | UrlError string string go_error
  | ErrTimeout go_error

text \<open>
  The \<^verbatim>\<open>Error()\<close> method: the message of an error. \<^verbatim>\<open>strconv.Quote\<close> in the message
  of an \<^verbatim>\<open>EscapeError\<close> is modelled by the double quotes that it puts around the bytes.
\<close>

fun Error :: "go_error \<Rightarrow> string" where
  "Error ErrValueMissing = ''firebase node missing''"
| "Error (ErrorString s) = s"
| "Error (EscapeError s) = ''invalid URL escape '' @ [CHR 0x22] @ s @ [CHR 0x22]"
| "Error (NetError s t) = s"
| "Error (TimeoutOnlyError s t) = s"
| "Error (UrlError op u e) = op @ '' '' @ u @ '': '' @ Error e"
| "Error (ErrTimeout e) = Error e"

text \<open>
  Whether the dynamic type of an error satisfies the interface \<^verbatim>\<open>net.Error\<close>
  (\<^verbatim>\<open>Error\<close>, \<^verbatim>\<open>Timeout\<close>, \<^verbatim>\<open>Temporary\<close>). \<^verbatim>\<open>*url.Error\<close> has all three methods;
  \<^verbatim>\<open>ErrTimeout\<close> only promotes \<^verbatim>\<open>Error\<close> from the interface it embeds.
\<close>

fun is_net_Error :: "go_error \<Rightarrow> bool" where
  "is_net_Error (NetError s t) = True"
| "is_net_Error (UrlError op u e) = True"
| "is_net_Error e = False"

text \<open>
  Whether the dynamic type of an error has a \<^verbatim>\<open>Timeout() bool\<close> method, that is, satisfies
  the interface \<^verbatim>\<open>timeout\<close> of \<^verbatim>\<open>net/url\<close>. Every \<^verbatim>\<open>net.Error\<close> has it.
\<close>

fun has_Timeout :: "go_error \<Rightarrow> bool" where
  "has_Timeout (NetError s t) = True"
| "has_Timeout (TimeoutOnlyError s t) = True"
| "has_Timeout (UrlError op u e) = True"
| "has_Timeout e = False"

text \<open>
  The \<^verbatim>\<open>Timeout()\<close> method. For \<^verbatim>\<open>*url.Error\<close> it is
  \<^verbatim>\<open>
  func (e *Error) Timeout() bool {
      t, ok := e.Err.(timeout)
      return ok && t.Timeout()
  }
  \<close>
  which asks the wrapped error for a \<^verbatim>\<open>Timeout\<close> method only, not for \<^verbatim>\<open>net.Error\<close>. The
  value on a type without the method is never used: every call is guarded by a type
  assertion.
\<close>

fun Timeout :: "go_error \<Rightarrow> bool" where
  "Timeout (NetError s t) = t"
| "Timeout (TimeoutOnlyError s t) = t"
| "Timeout (UrlError op u e) = (has_Timeout e \<and> Timeout e)"
| "Timeout e = False"

text \<open>A call either returns or panics.\<close>

datatype 'a exec = Ok 'a | Panic string

definition and_then :: "'a exec \<Rightarrow> ('a \<Rightarrow> 'b exec) \<Rightarrow> 'b exec" where
  "and_then m f = (case m of Panic p \<Rightarrow> Panic p | Ok x \<Rightarrow> f x)"

definition nil_map_assignment :: string where
  "nil_map_assignment = ''assignment to entry in nil map''"

subsection \<open>Query parameter constants\<close>

definition accessTokenParam :: string where "accessTokenParam = ''access_token''"
definition authParam :: string where "authParam = ''auth''"
definition shallowParam :: string where "shallowParam = ''shallow''"
definition formatParam :: string where "formatParam = ''format''"
definition formatVal :: string where "formatVal = ''export''"
definition orderByParam :: string where "orderByParam = ''orderBy''"
definition limitToFirstParam :: string where "limitToFirstParam = ''limitToFirst''"
definition limitToLastParam :: string where "limitToLastParam = ''limitToLast''"
definition startAtParam :: string where "startAtParam = ''startAt''"
definition endAtParam :: string where "endAtParam = ''endAt''"
definition equalToParam :: string where "equalToParam = ''equalTo''"

definition defaultRedirectLimit :: nat where "defaultRedirectLimit = 30"

subsection \<open>The \<^verbatim>\<open>strings\<close> helpers used by the code\<close>

definition HasPrefix :: "string \<Rightarrow> string \<Rightarrow> bool" where
  "HasPrefix s p = (length p \<le> length s \<and> take (length p) s = p)"

definition HasSuffix :: "string \<Rightarrow> string \<Rightarrow> bool" where
  "HasSuffix s p = (length p \<le> length s \<and> drop (length s - length p) s = p)"

text \<open>Decimal digits of a number, as \<^verbatim>\<open>%d\<close> prints it.\<close>

fun decimal :: "nat \<Rightarrow> string" where
  "decimal n = (if n < 10 then [''0123456789'' ! n]
                else decimal (n div 10) @ [''0123456789'' ! (n mod 10)])"

subsection \<open>\<^verbatim>\<open>net/url\<close>: query escaping\<close>

text \<open>
  The library functions behind \<^verbatim>\<open>url.Values.Encode\<close> and \<^verbatim>\<open>url.ParseQuery\<close>, in the mode
  \<^verbatim>\<open>encodeQueryComponent\<close>. A byte is left alone when it is a letter, a digit or one of
  \<^verbatim>\<open>-_.~\<close>; a space becomes \<^verbatim>\<open>+\<close>; every other byte becomes \<^verbatim>\<open>%XX\<close> in upper-case hex.
\<close>

definition alnum :: "char \<Rightarrow> bool" where
  "alnum c = (CHR ''A'' \<le> c \<and> c \<le> CHR ''Z'' \<or> CHR ''a'' \<le> c \<and> c \<le> CHR ''z''
              \<or> CHR ''0'' \<le> c \<and> c \<le> CHR ''9'')"

definition shouldEscape :: "char \<Rightarrow> bool" where
  "shouldEscape c =
     (if alnum c then False
      else if c = CHR ''-'' \<or> c = CHR ''_'' \<or> c = CHR ''.'' \<or> c = CHR ''~'' then False
      else True)"

definition upperhex :: string where
  "upperhex = ''0123456789ABCDEF''"

fun QueryEscape :: "string \<Rightarrow> string" where
  "QueryEscape [] = []"
| "QueryEscape (c # s) =
     (if c = CHR '' '' then CHR ''+'' # QueryEscape s
      else if shouldEscape c
        then CHR ''%'' # upperhex ! (of_char c div 16) # upperhex ! (of_char c mod 16) # QueryEscape s
      else c # QueryEscape s)"

definition ishex :: "char \<Rightarrow> bool" where
  "ishex c = (CHR ''0'' \<le> c \<and> c \<le> CHR ''9'' \<or> CHR ''a'' \<le> c \<and> c \<le> CHR ''f''
              \<or> CHR ''A'' \<le> c \<and> c \<le> CHR ''F'')"

definition unhex :: "char \<Rightarrow> nat" where
  "unhex c =
     (if CHR ''0'' \<le> c \<and> c \<le> CHR ''9'' then of_char c - of_char CHR ''0''
      else if CHR ''a'' \<le> c \<and> c \<le> CHR ''f'' then of_char c - of_char CHR ''a'' + 10
      else if CHR ''A'' \<le> c \<and> c \<le> CHR ''F'' then of_char c - of_char CHR ''A'' + 10
      else 0)"

text \<open>
  \<^verbatim>\<open>QueryUnescape\<close>: the library first checks every \<^verbatim>\<open>%\<close> and fails at the first one that
  is not followed by two hex digits, with at most three bytes from there as the error; then
  it decodes. One pass from the left gives the same result.
\<close>

fun QueryUnescape :: "string \<Rightarrow> go_error + string" where
  "QueryUnescape [] = Inr []"
| "QueryUnescape (c # s) =
     (if c = CHR ''%'' then
        (case s of
           h1 # h2 # rest \<Rightarrow>
             if ishex h1 \<and> ishex h2
             then (case QueryUnescape rest of
                     Inl e \<Rightarrow> Inl e
                   | Inr t \<Rightarrow> Inr (char_of (unhex h1 * 16 + unhex h2) # t))
             else Inl (EscapeError (take 3 (c # s)))
         | _ \<Rightarrow> Inl (EscapeError (take 3 (c # s))))
      else (case QueryUnescape s of
              Inl e \<Rightarrow> Inl e
            | Inr t \<Rightarrow> Inr ((if c = CHR ''+'' then CHR '' '' else c) # t)))"

subsection \<open>\<^verbatim>\<open>url.Values\<close>\<close>

text \<open>
  \<^verbatim>\<open>type Values map[string][]string\<close>. The content of a map is a finite map; the slices
  are values, since nothing in the package writes through a slice. Reading a missing key
  gives the nil slice.
\<close>

type_synonym Values = "(string, string list) fmap"

definition index_Values :: "Values \<Rightarrow> string \<Rightarrow> string list" where
  "index_Values v key = (case fmlookup v key of None \<Rightarrow> [] | Some vs \<Rightarrow> vs)"

text \<open>
  \<^verbatim>\<open>
  func (v Values) Encode() string {
      if v == nil { return "" }
      var buf bytes.Buffer
      keys := make([]string, 0, len(v))
      for k := range v { keys = append(keys, k) }
      sort.Strings(keys)
      for _, k := range keys {
          vs := v[k]
          prefix := QueryEscape(k) + "="
          for _, v := range vs {
              if buf.Len() > 0 { buf.WriteByte('&') }
              buf.WriteString(prefix)
              buf.WriteString(QueryEscape(v))
          }
      }
      return buf.String()
  }
  \<close>
  \<^verbatim>\<open>sort.Strings\<close> orders byte-wise, which is the lexicographic order of \<^typ>\<open>string\<close>.
\<close>

definition write_pair :: "string \<Rightarrow> string \<Rightarrow> string \<Rightarrow> string" where
  "write_pair prfx val buf = (if length buf > 0 then buf @ ''&'' else buf) @ prfx @ QueryEscape val"

definition Encode :: "Values \<Rightarrow> string" where
  "Encode v =
     fold (\<lambda>k buf. fold (write_pair (QueryEscape k @ ''='')) (index_Values v k) buf)
          (sorted_list_of_fset (fmdom v)) []"

text \<open>
  \<^verbatim>\<open>
  func parseQuery(m Values, query string) (err error) {
      for query != "" {
          key := query
          if i := strings.IndexAny(key, "&;"); i >= 0 {
              key, query = key[:i], key[i+1:]
          } else {
              query = ""
          }
          if key == "" { continue }
          value := ""
          if i := strings.Index(key, "="); i >= 0 {
              key, value = key[:i], key[i+1:]
          }
          key, err1 := QueryUnescape(key)
          if err1 != nil {
              if err == nil { err = err1 }
              continue
          }
          value, err1 = QueryUnescape(value)
          if err1 != nil {
              if err == nil { err = err1 }
              continue
          }
          m[key] = append(m[key], value)
      }
      return err
  }
  \<close>
\<close>

definition is_sep :: "char \<Rightarrow> bool" where
  "is_sep c = (c = CHR ''&'' \<or> c = CHR '';'')"

text \<open>\<^verbatim>\<open>s[:i]\<close> and \<^verbatim>\<open>s[i+1:]\<close> for the first index \<^verbatim>\<open>i\<close> of a byte that satisfies \<^verbatim>\<open>P\<close>;
  the whole of \<^verbatim>\<open>s\<close> and the empty string when there is none.\<close>

definition before :: "(char \<Rightarrow> bool) \<Rightarrow> string \<Rightarrow> string" where
  "before P s = takeWhile (\<lambda>c. \<not> P c) s"

definition after :: "(char \<Rightarrow> bool) \<Rightarrow> string \<Rightarrow> string" where
  "after P s = drop 1 (dropWhile (\<lambda>c. \<not> P c) s)"

function parseQuery :: "Values \<Rightarrow> go_error option \<Rightarrow> string \<Rightarrow> Values \<times> go_error option" where
  "parseQuery m err query =
     (if query = [] then (m, err)
      else if before is_sep query = [] then parseQuery m err (after is_sep query)
      else
        (case QueryUnescape (before (\<lambda>c. c = CHR ''='') (before is_sep query)) of
           Inl err1 \<Rightarrow> parseQuery m (if err = None then Some err1 else err) (after is_sep query)
         | Inr key \<Rightarrow>
            (case QueryUnescape (after (\<lambda>c. c = CHR ''='') (before is_sep query)) of
               Inl err1 \<Rightarrow> parseQuery m (if err = None then Some err1 else err) (after is_sep query)
             | Inr val \<Rightarrow>
                 parseQuery (fmupd key (index_Values m key @ [val]) m) err (after is_sep query))))"
  by pat_completeness auto
termination
proof -
  have less: "length (after P q) < length q" if "q \<noteq> []" for P q
  proof -
    have "length (dropWhile (\<lambda>c. \<not> P c) q) \<le> length q" by (rule length_dropWhile_le)
    with that show ?thesis by (cases q) (auto simp: after_def)
  qed
  show ?thesis
    by (relation "measure (\<lambda>(m, err, query). length query)") (auto simp: less)
qed

declare parseQuery.simps [simp del]

subsection \<open>The heap\<close>

text \<open>
  \<^verbatim>\<open>
  type Firebase struct {
      url      string
      params   _url.Values
      client   *http.Client
      tokenSrc oauth2.TokenSource

      watchMtx     sync.Mutex
      watching     bool
      stopWatching chan struct{}
  }
  \<close>
  A map, a channel, a client and a \<^verbatim>\<open>*Firebase\<close> are references. The struct holds the
  address of its map (\<open>None\<close> is the nil map), of its client, of its token source (\<open>None\<close>
  is the nil interface) and of its channel (\<open>None\<close> is the nil channel); the mutex is
  locked or not.
\<close>

record Firebase =
  url :: string
  params :: "addr option"
  client :: addr
  tokenSrc :: "addr option"
  watchMtx :: bool
  watching :: bool
  stopWatching :: "addr option"

text \<open>
  The client that \<^verbatim>\<open>New\<close> builds when it is given none (keep-alives disabled, dialling
  within \<^verbatim>\<open>TimeoutDuration\<close>, \<^verbatim>\<open>CheckRedirect: redirectPreserveHeaders\<close>), or one that the
  caller built.
\<close>

datatype http_Client = DefaultClient | CallerClient

record http_Request =
  Method :: string
  URL :: string
  Body :: bytes
  Header :: "Values option"
  Ctx :: "addr option"

text \<open>A response: its status code and what \<^verbatim>\<open>ioutil.ReadAll(resp.Body)\<close> gives.\<close>

record http_Response =
  StatusCode :: int
  RespBody :: "go_error + bytes"

text \<open>The calls made to the capabilities outside the package, oldest first.\<close>

datatype event =
    TokenCall addr
  | DoCall addr http_Request
  | UnmarshalCall bytes

text \<open>
  The heap: the \<^verbatim>\<open>Firebase\<close> structs and the maps allocated so far (an address is an index;
  allocation appends), the clients, the number of channels made, and the calls made so far.
\<close>

record world =
  objs :: "Firebase list"
  vals :: "Values list"
  clients :: "http_Client list"
  chans :: nat
  calls :: "event list"

definition make_Values :: "world \<Rightarrow> addr \<times> world" where
  "make_Values w = (length (vals w), w\<lparr>vals := vals w @ [fmempty]\<rparr>)"

definition make_chan :: "world \<Rightarrow> addr \<times> world" where
  "make_chan w = (chans w, w\<lparr>chans := Suc (chans w)\<rparr>)"

definition new_Firebase :: "world \<Rightarrow> Firebase \<Rightarrow> addr \<times> world" where
  "new_Firebase w f = (length (objs w), w\<lparr>objs := objs w @ [f]\<rparr>)"

definition new_Client :: "world \<Rightarrow> http_Client \<Rightarrow> addr \<times> world" where
  "new_Client w c = (length (clients w), w\<lparr>clients := clients w @ [c]\<rparr>)"

text \<open>\<^verbatim>\<open>m[key] = vs\<close> on the map at an address.\<close>

definition map_assign :: "world \<Rightarrow> addr \<Rightarrow> string \<Rightarrow> string list \<Rightarrow> world" where
  "map_assign w a key vs = w\<lparr>vals := (vals w)[a := fmupd key vs (vals w ! a)]\<rparr>"

text \<open>
  \<^verbatim>\<open>
  func (v Values) Set(key, value string) { v[key] = []string{value} }
  func (v Values) Add(key, value string) { v[key] = append(v[key], value) }
  func (v Values) Del(key string)        { delete(v, key) }
  \<close>
  Assigning to an entry of the nil map panics; deleting from it does nothing.
\<close>

definition Values_Set :: "world \<Rightarrow> addr option \<Rightarrow> string \<Rightarrow> string \<Rightarrow> world exec" where
  "Values_Set w v key val =
     (case v of
        None \<Rightarrow> Panic nil_map_assignment
      | Some a \<Rightarrow> Ok (map_assign w a key [val]))"

definition Values_Add :: "world \<Rightarrow> addr option \<Rightarrow> string \<Rightarrow> string \<Rightarrow> world exec" where
  "Values_Add w v key val =
     (case v of
        None \<Rightarrow> Panic nil_map_assignment
      | Some a \<Rightarrow> Ok (map_assign w a key (index_Values (vals w ! a) key @ [val])))"

definition Values_Del :: "world \<Rightarrow> addr option \<Rightarrow> string \<Rightarrow> world" where
  "Values_Del w v key =
     (case v of
        None \<Rightarrow> w
      | Some a \<Rightarrow> w\<lparr>vals := (vals w)[a := fmdrop key (vals w ! a)]\<rparr>)"

definition Values_Encode :: "world \<Rightarrow> addr option \<Rightarrow> string" where
  "Values_Encode w v = (case v of None \<Rightarrow> [] | Some a \<Rightarrow> Encode (vals w ! a))"

definition Values_len :: "world \<Rightarrow> addr option \<Rightarrow> nat" where
  "Values_len w v = (case v of None \<Rightarrow> 0 | Some a \<Rightarrow> fcard (fmdom (vals w ! a)))"

text \<open>
  \<^verbatim>\<open>
  func ParseQuery(query string) (m Values, err error) {
      m = make(Values)
      err = parseQuery(m, query)
      return
  }
  \<close>
\<close>

definition ParseQuery :: "world \<Rightarrow> string \<Rightarrow> (addr option \<times> go_error option) \<times> world" where
  "ParseQuery w query =
     (let (m, w1) = make_Values w;
          (filled, err) = parseQuery (vals w1 ! m) None query
      in ((Some m, err), w1\<lparr>vals := (vals w1)[m := filled]\<rparr>))"

text \<open>
  \<^verbatim>\<open>for k, v := range src { dst[k] = v }\<close> on map contents. The order in which Go visits
  the keys is not specified; the keys are distinct, so every order gives the same map.
\<close>

definition range_assign :: "Values \<Rightarrow> Values \<Rightarrow> Values" where
  "range_assign dst src =
     fold (\<lambda>k d. case fmlookup src k of None \<Rightarrow> d | Some v \<Rightarrow> fmupd k v d)
          (sorted_list_of_fset (fmdom src)) dst"

subsection \<open>The capabilities outside the package\<close>

text \<open>
  What the package calls and does not define: the token source (\<^verbatim>\<open>Token()\<close> gives an
  error, a nil token or a token, of which only \<^verbatim>\<open>AccessToken\<close> is read), the check that
  \<^verbatim>\<open>http.NewRequest\<close> makes of the method and the URL, the round trip \<^verbatim>\<open>client.Do\<close>, and
  JSON encoding and decoding of the caller's values (of type \<^typ>\<open>'v\<close>) and of the
  \<^verbatim>\<open>map[string]string\<close> that \<^verbatim>\<open>PushC\<close> reads. The token source and the round trip may
  answer differently at every call: they are given the calls made so far.
\<close>

record 'v env =
  Token :: "addr \<Rightarrow> event list \<Rightarrow> go_error + string option"
  request_error :: "string \<Rightarrow> string \<Rightarrow> go_error option"
  Do :: "addr \<Rightarrow> http_Request \<Rightarrow> event list \<Rightarrow> go_error + http_Response"
  Marshal :: "'v \<Rightarrow> go_error + bytes"
  Unmarshal :: "bytes \<Rightarrow> 'v \<Rightarrow> go_error option \<times> 'v"
  Unmarshal_map :: "bytes \<Rightarrow> go_error + (string, string) fmap"

definition NewRequest :: "'v env \<Rightarrow> string \<Rightarrow> string \<Rightarrow> bytes \<Rightarrow> go_error + http_Request" where
  "NewRequest env method urlStr body =
     (case request_error env method urlStr of
        Some err \<Rightarrow> Inl err
      | None \<Rightarrow> Inr \<lparr>Method = method, URL = urlStr, Body = body, Header = Some fmempty, Ctx = None\<rparr>)"

definition WithContext :: "http_Request \<Rightarrow> addr \<Rightarrow> http_Request" where
  "WithContext req ctx = req\<lparr>Ctx := Some ctx\<rparr>"

text \<open>Go's integer division truncates towards zero.\<close>

definition quo :: "int \<Rightarrow> int \<Rightarrow> int" where
  "quo a b = sgn a * sgn b * (\<bar>a\<bar> div \<bar>b\<bar>)"

subsection \<open>\<^verbatim>\<open>sanitizeURL\<close>\<close>

text \<open>
  \<^verbatim>\<open>
  func sanitizeURL(url string) string {
      if !strings.HasPrefix(url, "https://") && !strings.HasPrefix(url, "http://") {
          url = "https://" + url
      }
      if strings.HasSuffix(url, "/") {
          url = url[:len(url)-1]
      }
      return url
  }
  \<close>
  The slice \<^verbatim>\<open>url[:len(url)-1]\<close> is only reached when \<^verbatim>\<open>url\<close> ends with a slash, so it is
  never out of range.
\<close>

definition sanitizeURL :: "string \<Rightarrow> string" where
  "sanitizeURL url0 =
     (let url1 = (if \<not> HasPrefix url0 ''https://'' \<and> \<not> HasPrefix url0 ''http://''
                  then ''https://'' @ url0 else url0);
          url2 = (if HasSuffix url1 ''/'' then take (length url1 - 1) url1 else url1)
      in url2)"

subsection \<open>\<^verbatim>\<open>New\<close>, \<^verbatim>\<open>AccessToken\<close>, \<^verbatim>\<open>Auth\<close>, \<^verbatim>\<open>Unauth\<close>\<close>

text \<open>
  \<^verbatim>\<open>
  func New(url string, client *http.Client) *Firebase {
      if client == nil {
          ...
          client = &http.Client{Transport: tr, CheckRedirect: redirectPreserveHeaders}
      }
      return &Firebase{
          url:          sanitizeURL(url),
          params:       _url.Values{},
          client:       client,
          stopWatching: make(chan struct{}),
      }
  }
  \<close>
\<close>

definition New :: "world \<Rightarrow> string \<Rightarrow> addr option \<Rightarrow> addr \<times> world" where
  "New w url0 client0 =
     (let (c, w1) = (case client0 of None \<Rightarrow> new_Client w DefaultClient | Some c \<Rightarrow> (c, w));
          (p, w2) = make_Values w1;
          (ch, w3) = make_chan w2
      in new_Firebase w3
           \<lparr>url = sanitizeURL url0, params = Some p, client = c, tokenSrc = None,
            watchMtx = False, watching = False, stopWatching = Some ch\<rparr>)"

text \<open>
  The methods take the address of their receiver, which is assumed to be allocated: a nil
  receiver is not modelled.
  \<^verbatim>\<open>
  func (fb *Firebase) AccessToken(tokenSource oauth2.TokenSource) { fb.tokenSrc = tokenSource }
  func (fb *Firebase) Auth(token string) { fb.params.Set(authParam, token) }
  func (fb *Firebase) Unauth()           { fb.params.Del(authParam) }
  \<close>
\<close>

definition AccessToken :: "world \<Rightarrow> addr \<Rightarrow> addr option \<Rightarrow> world" where
  "AccessToken w fb tokenSource = w\<lparr>objs := (objs w)[fb := (objs w ! fb)\<lparr>tokenSrc := tokenSource\<rparr>]\<rparr>"

definition Auth :: "world \<Rightarrow> addr \<Rightarrow> string \<Rightarrow> world exec" where
  "Auth w fb token = Values_Set w (params (objs w ! fb)) authParam token"

definition Unauth :: "world \<Rightarrow> addr \<Rightarrow> world" where
  "Unauth w fb = Values_Del w (params (objs w ! fb)) authParam"

subsection \<open>\<^verbatim>\<open>String\<close>\<close>

text \<open>
  \<^verbatim>\<open>
  func (fb *Firebase) String() string {
      path := fb.url + "/.json"

      paramsCopy, _ := _url.ParseQuery(fb.params.Encode())
      if fb.tokenSrc != nil {
          if token, err := fb.tokenSrc.Token(); err == nil && token != nil {
              paramsCopy.Add(accessTokenParam, token.AccessToken)
          }
      }

      if len(paramsCopy) > 0 {
          path += "?" + paramsCopy.Encode()
      }
      return path
  }
  \<close>
\<close>

definition String :: "'v env \<Rightarrow> world \<Rightarrow> addr \<Rightarrow> (string \<times> world) exec" where
  "String env w fb =
     (let path = url (objs w ! fb) @ ''/.json'';
          ((paramsCopy, _), w1) = ParseQuery w (Values_Encode w (params (objs w ! fb)))
      in and_then
           (case tokenSrc (objs w1 ! fb) of
              None \<Rightarrow> Ok w1
            | Some src \<Rightarrow>
                (case Token env src (calls w1) of
                   Inr (Some access_token) \<Rightarrow>
                     Values_Add (w1\<lparr>calls := calls w1 @ [TokenCall src]\<rparr>)
                       paramsCopy accessTokenParam access_token
                 | _ \<Rightarrow> Ok (w1\<lparr>calls := calls w1 @ [TokenCall src]\<rparr>)))
           (\<lambda>w2. Ok (if Values_len w2 paramsCopy > 0
                      then path @ ''?'' @ Values_Encode w2 paramsCopy
                      else path, w2)))"

subsection \<open>\<^verbatim>\<open>Child\<close> and \<^verbatim>\<open>copy\<close>\<close>

text \<open>
  \<^verbatim>\<open>
  func (fb *Firebase) copy() *Firebase {
      c := &Firebase{
          url:          fb.url,
          params:       _url.Values{},
          client:       fb.client,
          stopWatching: make(chan struct{}),
          tokenSrc:     fb.tokenSrc,
      }
      for k, v := range fb.params {
          c.params[k] = v
      }
      return c
  }

  func (fb *Firebase) Child(child string) *Firebase {
      c := fb.copy()
      c.url = c.url + "/" + child
      return c
  }
  \<close>
\<close>

definition copy :: "world \<Rightarrow> addr \<Rightarrow> addr \<times> world" where
  "copy w fb =
     (let (p, w1) = make_Values w;
          (ch, w2) = make_chan w1;
          (c, w3) = new_Firebase w2
             \<lparr>url = url (objs w ! fb), params = Some p, client = client (objs w ! fb),
              tokenSrc = tokenSrc (objs w ! fb), watchMtx = False, watching = False,
              stopWatching = Some ch\<rparr>;
          src = (case params (objs w3 ! fb) of None \<Rightarrow> fmempty | Some a \<Rightarrow> vals w3 ! a)
      in (c, w3\<lparr>vals := (vals w3)[p := range_assign (vals w3 ! p) src]\<rparr>))"

definition Child :: "world \<Rightarrow> addr \<Rightarrow> string \<Rightarrow> addr \<times> world" where
  "Child w fb child =
     (let (c, w1) = copy w fb
      in (c, w1\<lparr>objs := (objs w1)[c := (objs w1 ! c)\<lparr>url := url (objs w1 ! c) @ ''/'' @ child\<rparr>]\<rparr>))"

subsection \<open>\<^verbatim>\<open>redirectPreserveHeaders\<close>\<close>

text \<open>
  \<^verbatim>\<open>
  func redirectPreserveHeaders(req *http.Request, via []*http.Request) error {
      if len(via) == 0 {
          return nil
      }
      if len(via) > defaultRedirectLimit {
          return fmt.Errorf("%d consecutive requests(redirects)", len(via))
      }
      for key, val := range via[0].Header {
          req.Header[key] = val
      }
      return nil
  }
  \<close>
  The function returns its error and leaves the request changed. Ranging over a nil or
  empty header performs no assignment; an assignment to an entry of a nil header panics.
\<close>

definition redirectPreserveHeaders ::
    "http_Request \<Rightarrow> http_Request list \<Rightarrow> (go_error option \<times> http_Request) exec" where
  "redirectPreserveHeaders req via =
     (if length via = 0 then Ok (None, req)
      else if length via > defaultRedirectLimit
        then Ok (Some (ErrorString (decimal (length via) @ '' consecutive requests(redirects)'')), req)
      else
        (case Header (via ! 0) of
           None \<Rightarrow> Ok (None, req)
         | Some first \<Rightarrow>
             if first = fmempty then Ok (None, req)
             else (case Header req of
                     None \<Rightarrow> Panic nil_map_assignment
                   | Some h \<Rightarrow> Ok (None, req\<lparr>Header := Some (range_assign h first)\<rparr>))))"

subsection \<open>\<^verbatim>\<open>doRequest\<close>\<close>

text \<open>
  \<^verbatim>\<open>
  func (fb *Firebase) doRequest(ctx context.Context, method string, body []byte) ([]byte, error) {
      req, err := http.NewRequest(method, fb.String(), bytes.NewReader(body))
      if err != nil {
          return nil, err
      }
      if ctx != nil {
          req = req.WithContext(ctx)
      }

      resp, err := fb.client.Do(req)
      switch err := err.(type) {
      default:
          return nil, err
      case nil:
          // carry on
      case *_url.Error:
          e1, ok := err.Err.(net.Error)
          if ok && e1.Timeout() {
              return nil, ErrTimeout{err}
          }
          return nil, err
      case net.Error:
          if err.Timeout() {
              return nil, ErrTimeout{err}
          }
          return nil, err
      }

      defer resp.Body.Close()
      respBody, err := ioutil.ReadAll(resp.Body)
      if err != nil {
          return nil, err
      }
      if resp.StatusCode/200 != 1 {
          return nil, errors.New(string(respBody))
      }
      return respBody, nil
  }
  \<close>
  The cases of a type switch are tried in the order written, \<^verbatim>\<open>default\<close> last.
\<close>

definition doRequest ::
    "'v env \<Rightarrow> world \<Rightarrow> addr \<Rightarrow> addr option \<Rightarrow> string \<Rightarrow> bytes \<Rightarrow> ((go_error + bytes) \<times> world) exec" where
  "doRequest env w fb ctx method body =
     and_then (String env w fb) (\<lambda>(u, w1).
       case NewRequest env method u body of
         Inl err \<Rightarrow> Ok (Inl err, w1)
       | Inr req0 \<Rightarrow>
           (let req = (case ctx of None \<Rightarrow> req0 | Some c \<Rightarrow> WithContext req0 c);
                w2 = w1\<lparr>calls := calls w1 @ [DoCall (client (objs w1 ! fb)) req]\<rparr>
            in case Do env (client (objs w1 ! fb)) req (calls w1) of
                 Inl (UrlError op u' inner) \<Rightarrow>
                   if is_net_Error inner \<and> Timeout inner
                   then Ok (Inl (ErrTimeout (UrlError op u' inner)), w2)
                   else Ok (Inl (UrlError op u' inner), w2)
               | Inl err \<Rightarrow>
                   if is_net_Error err
                   then (if Timeout err then Ok (Inl (ErrTimeout err), w2) else Ok (Inl err, w2))
                   else Ok (Inl err, w2)
               | Inr resp \<Rightarrow>
                  (case RespBody resp of
                     Inl err \<Rightarrow> Ok (Inl err, w2)
                   | Inr respBody \<Rightarrow>
                       if quo (StatusCode resp) 200 \<noteq> 1
                       then Ok (Inl (ErrorString respBody), w2)
                       else Ok (Inr respBody, w2))))"

subsection \<open>The operations\<close>

text \<open>
  \<^verbatim>\<open>
  func (fb *Firebase) PushC(ctx context.Context, v interface{}) (*Firebase, error) {
      bytes, err := json.Marshal(v)
      if err != nil {
          return nil, err
      }
      bytes, err = fb.doRequest(ctx, "POST", bytes)
      if err != nil {
          return nil, err
      }
      var m map[string]string
      if err := json.Unmarshal(bytes, &m); err != nil {
          return nil, err
      }
      return &Firebase{
          url:    fb.url + "/" + m["name"],
          client: fb.client,
      }, err
  }
  \<close>
  The fields that the struct literal leaves out have their zero value: a nil map, a nil
  token source, a nil channel. Reading a missing key of \<^verbatim>\<open>m\<close> gives the empty string.
\<close>

definition index_map :: "(string, string) fmap \<Rightarrow> string \<Rightarrow> string" where
  "index_map m key = (case fmlookup m key of None \<Rightarrow> [] | Some s \<Rightarrow> s)"

definition PushC ::
    "'v env \<Rightarrow> world \<Rightarrow> addr \<Rightarrow> addr option \<Rightarrow> 'v \<Rightarrow> ((go_error + addr) \<times> world) exec" where
  "PushC env w fb ctx v =
     (case Marshal env v of
        Inl err \<Rightarrow> Ok (Inl err, w)
      | Inr bytes \<Rightarrow>
          and_then (doRequest env w fb ctx ''POST'' bytes) (\<lambda>(r, w1).
            case r of
              Inl err \<Rightarrow> Ok (Inl err, w1)
            | Inr bytes' \<Rightarrow>
               (let w2 = w1\<lparr>calls := calls w1 @ [UnmarshalCall bytes']\<rparr>
                in case Unmarshal_map env bytes' of
                     Inl err \<Rightarrow> Ok (Inl err, w2)
                   | Inr m \<Rightarrow>
                      (let (c, w3) = new_Firebase w2
                             \<lparr>url = url (objs w2 ! fb) @ ''/'' @ index_map m ''name'',
                              params = None, client = client (objs w2 ! fb), tokenSrc = None,
                              watchMtx = False, watching = False, stopWatching = None\<rparr>
                       in Ok (Inr c, w3)))))"

text \<open>
  \<^verbatim>\<open>
  func (fb *Firebase) RemoveC(ctx context.Context) error {
      _, err := fb.doRequest(ctx, "DELETE", nil)
      if err != nil {
          return err
      }
      return nil
  }

  func (fb *Firebase) SetC(ctx context.Context, v interface{}) error {
      bytes, err := json.Marshal(v)
      if err != nil {
          return err
      }
      _, err = fb.doRequest(ctx, "PUT", bytes)
      return err
  }
  \<close>
  and \<^verbatim>\<open>UpdateC\<close> is \<^verbatim>\<open>SetC\<close> with \<^verbatim>\<open>"PATCH"\<close>.
\<close>

definition error_of :: "go_error + 'a \<Rightarrow> go_error option" where
  "error_of r = (case r of Inl err \<Rightarrow> Some err | Inr x \<Rightarrow> None)"

definition RemoveC :: "'v env \<Rightarrow> world \<Rightarrow> addr \<Rightarrow> addr option \<Rightarrow> (go_error option \<times> world) exec" where
  "RemoveC env w fb ctx =
     and_then (doRequest env w fb ctx ''DELETE'' []) (\<lambda>(r, w1). Ok (error_of r, w1))"

definition SetC :: "'v env \<Rightarrow> world \<Rightarrow> addr \<Rightarrow> addr option \<Rightarrow> 'v \<Rightarrow> (go_error option \<times> world) exec" where
  "SetC env w fb ctx v =
     (case Marshal env v of
        Inl err \<Rightarrow> Ok (Some err, w)
      | Inr bytes \<Rightarrow>
          and_then (doRequest env w fb ctx ''PUT'' bytes) (\<lambda>(r, w1). Ok (error_of r, w1)))"

definition UpdateC :: "'v env \<Rightarrow> world \<Rightarrow> addr \<Rightarrow> addr option \<Rightarrow> 'v \<Rightarrow> (go_error option \<times> world) exec" where
  "UpdateC env w fb ctx v =
     (case Marshal env v of
        Inl err \<Rightarrow> Ok (Some err, w)
      | Inr bytes \<Rightarrow>
          and_then (doRequest env w fb ctx ''PATCH'' bytes) (\<lambda>(r, w1). Ok (error_of r, w1)))"

text \<open>
  \<^verbatim>\<open>
  func (fb *Firebase) ValueC(ctx context.Context, v interface{}) error {
      bytes, err := fb.doRequest(ctx, "GET", nil)
      if err != nil {
          return err
      }
      return json.Unmarshal(bytes, v)
  }

  func (fb *Firebase) MustValueC(ctx context.Context, v interface{}) error {
      bytes, err := fb.doRequest(ctx, "GET", nil)
      if err != nil {
          return err
      } else if len(bytes) == 0 || string(bytes) == "null" {
          return ErrValueMissing
      }
      return json.Unmarshal(bytes, v)
  }
  \<close>
  The result is the error and the caller's value \<^verbatim>\<open>v\<close> as the call leaves it.
\<close>

definition ValueC ::
    "'v env \<Rightarrow> world \<Rightarrow> addr \<Rightarrow> addr option \<Rightarrow> 'v \<Rightarrow> ((go_error option \<times> 'v) \<times> world) exec" where
  "ValueC env w fb ctx v =
     and_then (doRequest env w fb ctx ''GET'' []) (\<lambda>(r, w1).
       case r of
         Inl err \<Rightarrow> Ok ((Some err, v), w1)
       | Inr bytes \<Rightarrow> Ok (Unmarshal env bytes v, w1\<lparr>calls := calls w1 @ [UnmarshalCall bytes]\<rparr>))"

definition MustValueC ::
    "'v env \<Rightarrow> world \<Rightarrow> addr \<Rightarrow> addr option \<Rightarrow> 'v \<Rightarrow> ((go_error option \<times> 'v) \<times> world) exec" where
  "MustValueC env w fb ctx v =
     and_then (doRequest env w fb ctx ''GET'' []) (\<lambda>(r, w1).
       case r of
         Inl err \<Rightarrow> Ok ((Some err, v), w1)
       | Inr bytes \<Rightarrow>
           if length bytes = 0 \<or> bytes = ''null'' then Ok ((Some ErrValueMissing, v), w1)
           else Ok (Unmarshal env bytes v, w1\<lparr>calls := calls w1 @ [UnmarshalCall bytes]\<rparr>))"

text \<open>The variants without a context pass the nil context.\<close>

definition Push :: "'v env \<Rightarrow> world \<Rightarrow> addr \<Rightarrow> 'v \<Rightarrow> ((go_error + addr) \<times> world) exec" where
  "Push env w fb v = PushC env w fb None v"

definition Remove :: "'v env \<Rightarrow> world \<Rightarrow> addr \<Rightarrow> (go_error option \<times> world) exec" where
  "Remove env w fb = RemoveC env w fb None"

definition Set :: "'v env \<Rightarrow> world \<Rightarrow> addr \<Rightarrow> 'v \<Rightarrow> (go_error option \<times> world) exec" where
  "Set env w fb v = SetC env w fb None v"

definition Update :: "'v env \<Rightarrow> world \<Rightarrow> addr \<Rightarrow> 'v \<Rightarrow> (go_error option \<times> world) exec" where
  "Update env w fb v = UpdateC env w fb None v"

definition Value :: "'v env \<Rightarrow> world \<Rightarrow> addr \<Rightarrow> 'v \<Rightarrow> ((go_error option \<times> 'v) \<times> world) exec" where
  "Value env w fb v = ValueC env w fb None v"

definition MustValue :: "'v env \<Rightarrow> world \<Rightarrow> addr \<Rightarrow> 'v \<Rightarrow> ((go_error option \<times> 'v) \<times> world) exec" where
  "MustValue env w fb v = MustValueC env w fb None v"

subsection \<open>Properties of a path\<close>

text \<open>The two properties of a path that the data model asks for.\<close>

definition has_scheme :: "string \<Rightarrow> bool" where
  "has_scheme s = (HasPrefix s ''http://'' \<or> HasPrefix s ''https://'')"

definition trailing_slash :: "string \<Rightarrow> bool" where
  "trailing_slash s = HasSuffix s ''/''"

text \<open>The inputs on which \<^verbatim>\<open>sanitizeURL\<close> removes every trailing slash that there is.\<close>

definition plain_input :: "string \<Rightarrow> bool" where
  "plain_input u = (u \<noteq> [] \<and> u \<noteq> ''/'' \<and> \<not> HasSuffix u ''//'')"

subsection \<open>Chains of derivations\<close>

text \<open>The reference reached from \<^verbatim>\<open>fb\<close> by \<^verbatim>\<open>Child\<close> with each name in turn.\<close>

fun Children :: "world \<Rightarrow> addr \<Rightarrow> string list \<Rightarrow> addr \<times> world" where
  "Children w fb [] = (fb, w)"
| "Children w fb (n # ns) = (let (c, w1) = Child w fb n in Children w1 c ns)"

text \<open>The path of the reference reached by \<^verbatim>\<open>New\<close> and then \<^verbatim>\<open>Child\<close> with each name.\<close>

definition reached_path :: "world \<Rightarrow> string \<Rightarrow> addr option \<Rightarrow> string list \<Rightarrow> string" where
  "reached_path w u cl names =
     (let (r, w1) = New w u cl; (c, w2) = Children w1 r names in url (objs w2 ! c))"

text \<open>\<^verbatim>\<open>Auth(t)\<close> and then \<^verbatim>\<open>Unauth()\<close>.\<close>

definition Auth_Unauth :: "world \<Rightarrow> addr \<Rightarrow> string \<Rightarrow> world exec" where
  "Auth_Unauth w fb t = and_then (Auth w fb t) (\<lambda>w1. Ok (Unauth w1 fb))"

text \<open>The header of a request as a map: a nil header has no entry.\<close>

definition header_entries :: "http_Request \<Rightarrow> Values" where
  "header_entries req = (case Header req of None \<Rightarrow> fmempty | Some h \<Rightarrow> h)"

subsection \<open>Examples\<close>

text \<open>
  The heap before anything is allocated, and the heap after
  \<^verbatim>\<open>New("https://example.com/a/", nil)\<close> with a given content of the query map.
\<close>

definition empty_world :: world where
  "empty_world = \<lparr>objs = [], vals = [], clients = [], chans = 0, calls = []\<rparr>"

definition example_ref :: Firebase where
  "example_ref = \<lparr>url = ''https://example.com/a'', params = Some 0, client = 0, tokenSrc = None,
                   watchMtx = False, watching = False, stopWatching = Some 0\<rparr>"

definition example_world :: "Values \<Rightarrow> world" where
  "example_world m = \<lparr>objs = [example_ref], vals = [m], clients = [DefaultClient], chans = 1,
                      calls = []\<rparr>"

definition get_request :: "Values \<Rightarrow> http_Request" where
  "get_request h = \<lparr>Method = ''GET'', URL = ''https://example.com/a/.json'', Body = [],
                    Header = Some h, Ctx = None\<rparr>"

subsection \<open>What \<^verbatim>\<open>String\<close> computes\<close>

text \<open>
  The content of the query map of a reference (the nil map has no entry), the token that
  its token source gives now, the map with that token added as \<^verbatim>\<open>Values.Add\<close> adds it, and
  the query part of a rendered URL for a map.
\<close>

definition params_of :: "world \<Rightarrow> addr \<Rightarrow> Values" where
  "params_of w fb = (case params (objs w ! fb) of None \<Rightarrow> fmempty | Some a \<Rightarrow> vals w ! a)"

definition resolved_token :: "'v env \<Rightarrow> world \<Rightarrow> addr \<Rightarrow> string option" where
  "resolved_token env w fb =
     (case tokenSrc (objs w ! fb) of
        None \<Rightarrow> None
      | Some src \<Rightarrow> (case Token env src (calls w) of Inr (Some t) \<Rightarrow> Some t | _ \<Rightarrow> None))"

definition token_calls :: "world \<Rightarrow> addr \<Rightarrow> event list" where
  "token_calls w fb = (case tokenSrc (objs w ! fb) of None \<Rightarrow> [] | Some src \<Rightarrow> [TokenCall src])"

definition with_token :: "Values \<Rightarrow> string option \<Rightarrow> Values" where
  "with_token m tok =
     (case tok of
        None \<Rightarrow> m
      | Some t \<Rightarrow> fmupd accessTokenParam (index_Values m accessTokenParam @ [t]) m)"

definition reparsed :: "Values \<Rightarrow> Values" where
  "reparsed m = fst (parseQuery fmempty None (Encode m))"

definition query_part :: "Values \<Rightarrow> string" where
  "query_part m = (if Encode m = [] then [] else ''?'' @ Encode m)"

text \<open>The error that \<^verbatim>\<open>doRequest\<close> is claimed to report as a timeout: a \<^verbatim>\<open>net.Error\<close> whose
  \<^verbatim>\<open>Timeout()\<close> is true, returned as it is or wrapped in a \<^verbatim>\<open>*url.Error\<close>.\<close>

definition net_timeout :: "go_error \<Rightarrow> bool" where
  "net_timeout e = (is_net_Error e \<and> Timeout e)"

definition wrapped_net_timeout :: "go_error \<Rightarrow> bool" where
  "wrapped_net_timeout e = (case e of UrlError op u inner \<Rightarrow> net_timeout inner | _ \<Rightarrow> False)"

text \<open>
  The errors that \<^verbatim>\<open>doRequest\<close> does report as a timeout: a \<^verbatim>\<open>*url.Error\<close> that wraps a
  \<^verbatim>\<open>net.Error\<close> whose \<^verbatim>\<open>Timeout()\<close> is true, or an error of another type that is a
  \<^verbatim>\<open>net.Error\<close> whose \<^verbatim>\<open>Timeout()\<close> is true. And the errors on which the two differ: a
  \<^verbatim>\<open>*url.Error\<close> that wraps an error with a \<^verbatim>\<open>Timeout\<close> method that is true and that is not
  a \<^verbatim>\<open>net.Error\<close>.
\<close>

definition is_url_Error :: "go_error \<Rightarrow> bool" where
  "is_url_Error e = (case e of UrlError op u inner \<Rightarrow> True | _ \<Rightarrow> False)"

definition reported_timeout :: "go_error \<Rightarrow> bool" where
  "reported_timeout e = (if is_url_Error e then wrapped_net_timeout e else net_timeout e)"

definition wraps_timeout_only :: "go_error \<Rightarrow> bool" where
  "wraps_timeout_only e =
     (case e of
        UrlError op u inner \<Rightarrow> has_Timeout inner \<and> Timeout inner \<and> \<not> is_net_Error inner
      | _ \<Rightarrow> False)"

text \<open>The request that \<^verbatim>\<open>doRequest\<close> sends, and the heap once it is sent.\<close>

definition with_ctx :: "http_Request \<Rightarrow> addr option \<Rightarrow> http_Request" where
  "with_ctx req ctx = (case ctx of None \<Rightarrow> req | Some c \<Rightarrow> WithContext req c)"

definition sent :: "world \<Rightarrow> addr \<Rightarrow> http_Request \<Rightarrow> world" where
  "sent w fb req = w\<lparr>calls := calls w @ [DoCall (client (objs w ! fb)) req]\<rparr>"

text \<open>
  Capabilities for the examples: a token source that gives the token \<^verbatim>\<open>tok\<close>, a transport
  with one answer to every request, values that are already JSON text, and a decoder of
  \<^verbatim>\<open>map[string]string\<close> that reads the one object of the examples.
\<close>

definition push_body :: bytes where
  "push_body = ''{'' @ [CHR 0x22] @ ''name'' @ [CHR 0x22] @ '':'' @ [CHR 0x22] @ ''-Kabc'' @ [CHR 0x22] @ ''}''"

definition x1_body :: bytes where
  "x1_body = ''{'' @ [CHR 0x22] @ ''x'' @ [CHR 0x22] @ '':1}''"

definition respond :: "go_error + http_Response \<Rightarrow> bytes env" where
  "respond r =
     \<lparr>Token = (\<lambda>src evs. Inr (Some ''tok'')),
      request_error = (\<lambda>method u. None),
      Do = (\<lambda>c req evs. r),
      Marshal = (\<lambda>v. Inr v),
      Unmarshal = (\<lambda>b v. (None, b)),
      Unmarshal_map = (\<lambda>b. if b = push_body then Inr (fmupd ''name'' ''-Kabc'' fmempty)
                            else Inl (ErrorString ''unexpected end of JSON input''))\<rparr>"

definition response :: "int \<Rightarrow> bytes \<Rightarrow> go_error + http_Response" where
  "response code body = Inr \<lparr>StatusCode = code, RespBody = Inr body\<rparr>"

text \<open>
  The same capabilities with a deserializer that fails with \<^verbatim>\<open>ErrValueMissing\<close> on every
  body, as \<^verbatim>\<open>json.Unmarshal\<close> does into a caller's type whose \<^verbatim>\<open>UnmarshalJSON\<close> returns that
  package variable.
\<close>

definition refusing :: "bytes env \<Rightarrow> bytes env" where
  "refusing env = env\<lparr>Unmarshal := (\<lambda>b v. (Some ErrValueMissing, v))\<rparr>"

text \<open>The example heap once \<^verbatim>\<open>String\<close> has parsed its copy of the empty query map.\<close>

definition rendered_world :: world where
  "rendered_world = (example_world fmempty)\<lparr>vals := [fmempty, fmempty]\<rparr>"

subsection \<open>What \<^verbatim>\<open>MustValueC\<close> and \<^verbatim>\<open>PushC\<close> are claimed to do\<close>

text \<open>A round trip that succeeded with an empty body or with the body \<^verbatim>\<open>null\<close>.\<close>

definition missing_body :: "go_error + bytes \<Rightarrow> bool" where
  "missing_body r = (case r of Inl err \<Rightarrow> False | Inr b \<Rightarrow> b = [] \<or> b = ''null'')"

text \<open>The bodies that were handed to the deserializer so far, oldest first.\<close>

definition unmarshal_calls :: "world \<Rightarrow> bytes list" where
  "unmarshal_calls w =
     concat (map (\<lambda>e. case e of UnmarshalCall b \<Rightarrow> [b] | _ \<Rightarrow> []) (calls w))"

text \<open>The request that \<^verbatim>\<open>Push\<close> sends in the examples, and the heap that it leaves.\<close>

definition post_request :: "bytes \<Rightarrow> http_Request" where
  "post_request body = \<lparr>Method = ''POST'', URL = ''https://example.com/a/.json'', Body = body,
                         Header = Some fmempty, Ctx = None\<rparr>"

definition pushed_ref :: Firebase where
  "pushed_ref = \<lparr>url = ''https://example.com/a/-Kabc'', params = None, client = 0, tokenSrc = None,
                  watchMtx = False, watching = False, stopWatching = None\<rparr>"

definition pushed_world :: world where
  "pushed_world =
     \<lparr>objs = [example_ref, pushed_ref], vals = [fmempty, fmempty], clients = [DefaultClient],
      chans = 1, calls = [DoCall 0 (post_request ''1''), UnmarshalCall push_body]\<rparr>"

subsection \<open>What \<^verbatim>\<open>Encode\<close> writes and \<^verbatim>\<open>parseQuery\<close> reads back\<close>

text \<open>
  The key and value pairs of a map in the order in which \<^verbatim>\<open>Encode\<close> writes them, one pair as
  it is written, the pairs joined by \<^verbatim>\<open>&\<close>, the assignment that \<^verbatim>\<open>parseQuery\<close> makes for a
  pair, and the map without the keys that have no value.
\<close>

definition pairs_of :: "Values \<Rightarrow> (string \<times> string) list" where
  "pairs_of m = concat (map (\<lambda>k. map (Pair k) (index_Values m k)) (sorted_list_of_fset (fmdom m)))"

definition enc_pair :: "string \<times> string \<Rightarrow> string" where
  "enc_pair p = QueryEscape (fst p) @ ''='' @ QueryEscape (snd p)"

fun join_pairs :: "(string \<times> string) list \<Rightarrow> string" where
  "join_pairs [] = []"
| "join_pairs [p] = enc_pair p"
| "join_pairs (p # q # ps) = enc_pair p @ ''&'' @ join_pairs (q # ps)"

definition add_pair :: "string \<times> string \<Rightarrow> Values \<Rightarrow> Values" where
  "add_pair p m = fmupd (fst p) (index_Values m (fst p) @ [snd p]) m"

definition nonempty_part :: "Values \<Rightarrow> Values" where
  "nonempty_part m = fmfilter (\<lambda>k. index_Values m k \<noteq> []) m"

subsection \<open>Frames\<close>

text \<open>
  A reference whose struct and whose query map (when it is not the nil map) are allocated
  in the heap.
\<close>

definition valid_ref :: "world \<Rightarrow> addr \<Rightarrow> bool" where
  "valid_ref w fb =
     (fb < length (objs w)
      \<and> (case params (objs w ! fb) of None \<Rightarrow> True | Some a \<Rightarrow> a < length (vals w)))"

text \<open>The value that a call returns, without the heap that it leaves.\<close>

definition result :: "('a \<times> world) exec \<Rightarrow> 'a exec" where
  "result x = and_then x (\<lambda>(a, w). Ok a)"

text \<open>\<^verbatim>\<open>String()\<close> called \<open>n\<close> times in a row on one reference.\<close>

fun String_times :: "'v env \<Rightarrow> world \<Rightarrow> addr \<Rightarrow> nat \<Rightarrow> world exec" where
  "String_times env w fb 0 = Ok w"
| "String_times env w fb (Suc n) = and_then (String env w fb) (\<lambda>(s, w1). String_times env w1 fb n)"

text \<open>A sequence of \<^verbatim>\<open>Auth\<close>, \<^verbatim>\<open>Unauth\<close> and \<^verbatim>\<open>AccessToken\<close> calls on one reference.\<close>

datatype mutation = CallAuth string | CallUnauth | CallAccessToken "addr option"

fun mutate :: "world \<Rightarrow> addr \<Rightarrow> mutation list \<Rightarrow> world exec" where
  "mutate w r [] = Ok w"
| "mutate w r (CallAuth t # ms) = and_then (Auth w r t) (\<lambda>w1. mutate w1 r ms)"
| "mutate w r (CallUnauth # ms) = mutate (Unauth w r) r ms"
| "mutate w r (CallAccessToken src # ms) = mutate (AccessToken w r src) r ms"

text \<open>The example heap with a token source installed on its reference, and the heap after
  \<^verbatim>\<open>Child("b")\<close> on that reference.\<close>

definition token_world :: world where
  "token_world = (example_world fmempty)\<lparr>objs := [example_ref\<lparr>tokenSrc := Some 0\<rparr>]\<rparr>"

definition child_world :: world where
  "child_world =
     \<lparr>objs = [example_ref\<lparr>tokenSrc := Some 0\<rparr>,
              \<lparr>url = ''https://example.com/a/b'', params = Some 1, client = 0, tokenSrc = Some 0,
               watchMtx = False, watching = False, stopWatching = Some 1\<rparr>],
      vals = [fmempty, fmempty], clients = [DefaultClient], chans = 2, calls = []\<rparr>"

text \<open>
  The example heap with \<^verbatim>\<open>auth=t\<close> in the query map of its reference, the heap after
  \<^verbatim>\<open>Child("b")\<close> on that reference, and the heap after \<^verbatim>\<open>Auth("u")\<close>, \<^verbatim>\<open>Unauth()\<close> and
  \<^verbatim>\<open>AccessToken\<close> on the parent.
\<close>

definition authed_world :: world where
  "authed_world = example_world (fmupd authParam [''t''] fmempty)"

definition child_ref :: Firebase where
  "child_ref = \<lparr>url = ''https://example.com/a/b'', params = Some 1, client = 0, tokenSrc = None,
                 watchMtx = False, watching = False, stopWatching = Some 1\<rparr>"

definition derived_world :: world where
  "derived_world =
     \<lparr>objs = [example_ref, child_ref],
      vals = [fmupd authParam [''t''] fmempty, fmupd authParam [''t''] fmempty],
      clients = [DefaultClient], chans = 2, calls = []\<rparr>"

definition mutated_world :: world where
  "mutated_world =
     \<lparr>objs = [example_ref\<lparr>tokenSrc := Some 0\<rparr>, child_ref],
      vals = [fmempty, fmupd authParam [''t''] fmempty],
      clients = [DefaultClient], chans = 2, calls = []\<rparr>"

section \<open>Properties\<close>

subsection \<open>Strings and \<^verbatim>\<open>sanitizeURL\<close>\<close>

lemma HasPrefix_iff: "HasPrefix s p \<longleftrightarrow> prefix p s"
  by (auto simp: HasPrefix_def prefix_def) (metis append_eq_conv_conj)

lemma HasSuffix_iff: "HasSuffix s p \<longleftrightarrow> suffix p s"
proof
  assume "HasSuffix s p"
  then have "s = take (length s - length p) s @ p"
    by (metis HasSuffix_def append_take_drop_id)
  then show "suffix p s" unfolding suffix_def by blast
next
  assume "suffix p s"
  then show "HasSuffix s p" by (auto simp: HasSuffix_def suffix_def)
qed

lemma HasSuffix_slash: "HasSuffix s ''/'' \<longleftrightarrow> s \<noteq> [] \<and> last s = CHR ''/''"
  unfolding HasSuffix_iff
  by (cases s rule: rev_cases) (auto simp: suffix_def)

lemma has_scheme_iff: "has_scheme s \<longleftrightarrow> prefix ''http://'' s \<or> prefix ''https://'' s"
  by (simp add: has_scheme_def HasPrefix_iff)

lemma trailing_slash_iff: "trailing_slash s \<longleftrightarrow> s \<noteq> [] \<and> last s = CHR ''/''"
  by (simp add: trailing_slash_def HasSuffix_slash)

lemma sanitizeURL_alt:
  "sanitizeURL u =
     (let u1 = (if has_scheme u then u else ''https://'' @ u)
      in if trailing_slash u1 then butlast u1 else u1)"
  by (auto simp: sanitizeURL_def has_scheme_def trailing_slash_def Let_def butlast_conv_take)

lemma sanitizeURL_fixed: "has_scheme s \<Longrightarrow> \<not> trailing_slash s \<Longrightarrow> sanitizeURL s = s"
  by (simp add: sanitizeURL_alt)

lemma double_slash_iff:
  "HasSuffix s ''//'' \<longleftrightarrow> (\<exists>t. s = t @ ''//'')"
  by (auto simp: HasSuffix_iff suffix_def)

lemma butlast_keeps_scheme:
  assumes "has_scheme s" "\<not> HasSuffix s ''//''"
  shows "has_scheme (butlast s)"
proof -
  from assms(1) consider t where "s = ''http://'' @ t" | t where "s = ''https://'' @ t"
    unfolding has_scheme_iff prefix_def by blast
  then show ?thesis
  proof cases
    case 1
    with assms(2) have "t \<noteq> []" by (auto simp: HasSuffix_def)
    with 1 have "butlast s = ''http://'' @ butlast t" by (simp add: butlast_append)
    then show ?thesis by (simp add: has_scheme_iff)
  next
    case 2
    with assms(2) have "t \<noteq> []" by (auto simp: HasSuffix_def)
    with 2 have "butlast s = ''https://'' @ butlast t" by (simp add: butlast_append)
    then show ?thesis by (simp add: has_scheme_iff)
  qed
qed

lemma butlast_no_slash:
  assumes "\<not> HasSuffix s ''//''"
  shows "\<not> trailing_slash (butlast s) \<or> \<not> trailing_slash s"
proof (rule ccontr)
  assume "\<not> ?thesis"
  then have a: "trailing_slash (butlast s)" and b: "trailing_slash s" by auto
  from b obtain t where t: "s = t @ ''/''"
    unfolding trailing_slash_iff by (metis append_butlast_last_id)
  with a obtain t' where "t = t' @ ''/''"
    unfolding trailing_slash_iff by (metis append_butlast_last_id butlast_snoc)
  with t have "s = t' @ ''//''" by simp
  with assms show False by (simp add: double_slash_iff)
qed

lemma prefixed_no_double_slash:
  assumes "u \<noteq> []" "u \<noteq> ''/''" "\<not> HasSuffix u ''//''"
  shows "\<not> HasSuffix (''https://'' @ u) ''//''"
proof
  assume "HasSuffix (''https://'' @ u) ''//''"
  then obtain t where t: "''https://'' @ u = t @ ''//''" by (auto simp: double_slash_iff)
  from assms(1) obtain v a where v: "u = v @ [a]" by (cases u rule: rev_cases) auto
  with t have "(''https://'' @ v) @ [a] = (t @ ''/'') @ ''/''" by simp
  then have a: "a = CHR ''/''" and t2: "''https://'' @ v = t @ ''/''" by blast+
  from v assms(2) a have "v \<noteq> []" by auto
  then obtain w b where w: "v = w @ [b]" by (cases v rule: rev_cases) auto
  with t2 have "(''https://'' @ w) @ [b] = t @ ''/''" by simp
  then have "b = CHR ''/''" by blast
  with v w a have "u = w @ ''//''" by simp
  with assms(3) show False by (simp add: double_slash_iff)
qed

lemma sanitizeURL_plain:
  assumes "plain_input u"
  shows "sanitizeURL (sanitizeURL u) = sanitizeURL u \<and> has_scheme (sanitizeURL u)
         \<and> \<not> trailing_slash (sanitizeURL u)"
proof -
  define u1 where "u1 = (if has_scheme u then u else ''https://'' @ u)"
  have s1: "has_scheme u1" by (auto simp: u1_def) (simp add: has_scheme_iff)
  have d1: "\<not> HasSuffix u1 ''//''"
    using assms prefixed_no_double_slash by (auto simp: u1_def plain_input_def)
  have r: "sanitizeURL u = (if trailing_slash u1 then butlast u1 else u1)"
    by (simp add: sanitizeURL_alt u1_def)
  have a: "has_scheme (sanitizeURL u)"
    using s1 d1 butlast_keeps_scheme by (simp add: r)
  have b: "\<not> trailing_slash (sanitizeURL u)"
    using butlast_no_slash [OF d1] by (auto simp: r)
  from a b sanitizeURL_fixed show ?thesis by simp
qed

lemma sanitizeURL_not_plain:
  assumes "\<not> plain_input u"
  shows "trailing_slash (sanitizeURL u)"
proof -
  define u1 where "u1 = (if has_scheme u then u else ''https://'' @ u)"
  have "\<exists>t. u1 = t @ ''//''"
  proof -
    from assms consider "u = []" | "u = ''/''" | "HasSuffix u ''//''"
      by (auto simp: plain_input_def)
    then show ?thesis
    proof cases
      case 1
      then have "u1 = ''https:'' @ ''//''" by (simp add: u1_def has_scheme_def HasPrefix_def)
      then show ?thesis by blast
    next
      case 2
      then have "u1 = ''https:/'' @ ''//''" by (simp add: u1_def has_scheme_def HasPrefix_def)
      then show ?thesis by blast
    next
      case 3
      then obtain t where "u = t @ ''//''" by (auto simp: double_slash_iff)
      then have "u1 = t @ ''//'' \<or> u1 = (''https://'' @ t) @ ''//''" by (simp add: u1_def)
      then show ?thesis by blast
    qed
  qed
  then obtain t where t: "u1 = t @ ''//''" ..
  then have "trailing_slash u1" by (simp add: trailing_slash_iff)
  then have "sanitizeURL u = butlast u1" by (simp add: sanitizeURL_alt u1_def)
  with t have "sanitizeURL u = t @ ''/''" by (simp add: butlast_append)
  then show ?thesis by (simp add: trailing_slash_iff)
qed




subsection \<open>Paths\<close>

lemma has_scheme_append: "has_scheme s \<Longrightarrow> has_scheme (s @ t)"
  by (auto simp: has_scheme_iff)

lemma sanitizeURL_cases:
  "(has_scheme (sanitizeURL u) \<and> u \<noteq> [] \<and> u \<noteq> ''http://'' \<and> u \<noteq> ''https://'')
   \<or> (sanitizeURL u = ''http:/'' \<and> u = ''http://'')
   \<or> (sanitizeURL u = ''https:/'' \<and> (u = [] \<or> u = ''https://''))"
proof -
  define u1 where "u1 = (if has_scheme u then u else ''https://'' @ u)"
  have r: "sanitizeURL u = (if trailing_slash u1 then butlast u1 else u1)"
    by (simp add: sanitizeURL_alt u1_def)
  have "has_scheme u1" by (auto simp: u1_def) (simp add: has_scheme_iff)
  then consider t where "u1 = ''http://'' @ t" | t where "u1 = ''https://'' @ t"
    unfolding has_scheme_iff prefix_def by blast
  then show ?thesis
  proof cases
    case 1
    then have hu: "has_scheme u" "u = u1"
      by (auto simp: u1_def split: if_splits)
    show ?thesis
    proof (cases "t = []")
      case True
      with 1 hu r show ?thesis by (simp add: trailing_slash_iff)
    next
      case False
      with 1 have "butlast u1 = ''http://'' @ butlast t" by (simp add: butlast_append)
      with 1 r have "has_scheme (sanitizeURL u)" by (auto simp: has_scheme_iff)
      with False 1 hu show ?thesis by auto
    qed
  next
    case 2
    show ?thesis
    proof (cases "t = []")
      case True
      with 2 have "u = [] \<or> u = ''https://''" by (auto simp: u1_def split: if_splits)
      with True 2 r show ?thesis by (auto simp: trailing_slash_iff)
    next
      case False
      with 2 have "butlast u1 = ''https://'' @ butlast t" by (simp add: butlast_append)
      with 2 r have "has_scheme (sanitizeURL u)" by (auto simp: has_scheme_iff)
      moreover from False 2 have "u \<noteq> [] \<and> u \<noteq> ''http://'' \<and> u \<noteq> ''https://''"
        by (auto simp: u1_def has_scheme_iff split: if_splits)
      ultimately show ?thesis by simp
    qed
  qed
qed

lemma has_scheme_sanitizeURL:
  "has_scheme (sanitizeURL u) \<longleftrightarrow> u \<noteq> [] \<and> u \<noteq> ''http://'' \<and> u \<noteq> ''https://''"
  using sanitizeURL_cases [of u] by (auto simp: has_scheme_iff)

lemma has_scheme_sanitizeURL_Child: "has_scheme (sanitizeURL u @ ''/'' @ n)"
  using sanitizeURL_cases [of u] by (auto simp: has_scheme_iff)

lemma trailing_slash_append:
  "trailing_slash (s @ ''/'' @ n) \<longleftrightarrow> n = [] \<or> trailing_slash n"
  by (auto simp: trailing_slash_iff)

lemma concat_segments_snoc:
  "ns \<noteq> [] \<Longrightarrow>
     concat (map (\<lambda>n. ''/'' @ n) ns) = concat (map (\<lambda>n. ''/'' @ n) (butlast ns)) @ ''/'' @ last ns"
  by (induction ns) auto

lemma New_path:
  assumes "New w u cl = (r, w1)"
  shows "r < length (objs w1) \<and> url (objs w1 ! r) = sanitizeURL u"
  using assms
  by (auto simp: New_def new_Firebase_def make_Values_def make_chan_def new_Client_def Let_def
      split: option.splits prod.splits)

lemma Child_path:
  assumes "Child w fb n = (c, w1)"
  shows "c < length (objs w1) \<and> url (objs w1 ! c) = url (objs w ! fb) @ ''/'' @ n"
  using assms
  by (auto simp: Child_def copy_def new_Firebase_def make_Values_def make_chan_def Let_def
      split: option.splits prod.splits)

lemma Children_path:
  "Children w fb ns = (c, w') \<Longrightarrow>
     url (objs w' ! c) = url (objs w ! fb) @ concat (map (\<lambda>n. ''/'' @ n) ns)"
proof (induction ns arbitrary: w fb)
  case Nil
  then show ?case by simp
next
  case (Cons n ns)
  obtain c1 w1 where c1: "Child w fb n = (c1, w1)" by (cases "Child w fb n")
  with Cons.prems have "Children w1 c1 ns = (c, w')" by simp
  from Cons.IH [OF this] Child_path [OF c1] show ?case by simp
qed


lemma reached_path_eq:
  "reached_path w u cl names = sanitizeURL u @ concat (map (\<lambda>n. ''/'' @ n) names)"
proof -
  obtain r w1 where n: "New w u cl = (r, w1)" by (cases "New w u cl")
  obtain c w2 where c: "Children w1 r names = (c, w2)" by (cases "Children w1 r names")
  from Children_path [OF c] New_path [OF n] n c show ?thesis
    by (simp add: reached_path_def)
qed

text \<open>
  Claim C9, as the code has it. \<^verbatim>\<open>Child\<close> appends \<^verbatim>\<open>/\<close> and the name as it is given, and
  \<^verbatim>\<open>sanitizeURL\<close> removes one trailing slash. For the reference reached by \<^verbatim>\<open>New(u)\<close>
  and then \<^verbatim>\<open>Child\<close> with each of \<open>names\<close>: the path begins with \<^verbatim>\<open>http://\<close> or \<^verbatim>\<open>https://\<close>
  unless no child was derived and \<open>u\<close> is empty, \<^verbatim>\<open>http://\<close> or \<^verbatim>\<open>https://\<close>; it ends with a
  slash exactly when the last name is empty or ends with a slash or, with no child derived,
  when \<open>u\<close> is empty, is \<^verbatim>\<open>/\<close> or ends with \<^verbatim>\<open>//\<close>.
\<close>

theorem path_after_New_and_Child:
  "(has_scheme (reached_path w u cl names) \<longleftrightarrow>
      names \<noteq> [] \<or> (u \<noteq> [] \<and> u \<noteq> ''http://'' \<and> u \<noteq> ''https://''))
   \<and> (trailing_slash (reached_path w u cl names) \<longleftrightarrow>
        (if names = [] then \<not> plain_input u
         else last names = [] \<or> trailing_slash (last names)))"
proof (cases "names = []")
  case True
  then have "reached_path w u cl names = sanitizeURL u" by (simp add: reached_path_eq)
  with True show ?thesis
    using has_scheme_sanitizeURL sanitizeURL_plain sanitizeURL_not_plain by auto
next
  case False
  have p: "reached_path w u cl names = sanitizeURL u @ concat (map (\<lambda>n. ''/'' @ n) names)"
    by (rule reached_path_eq)
  from False obtain n ns where n: "names = n # ns" by (cases names) auto
  with p have "reached_path w u cl names
                 = (sanitizeURL u @ ''/'' @ n) @ concat (map (\<lambda>n. ''/'' @ n) ns)"
    by simp
  then have a: "has_scheme (reached_path w u cl names)"
    using has_scheme_sanitizeURL_Child has_scheme_append by metis
  from p concat_segments_snoc [OF False]
  have "reached_path w u cl names
          = (sanitizeURL u @ concat (map (\<lambda>n. ''/'' @ n) (butlast names))) @ ''/'' @ last names"
    by simp
  then have "trailing_slash (reached_path w u cl names)
               \<longleftrightarrow> last names = [] \<or> trailing_slash (last names)"
    using trailing_slash_append by metis
  with a False show ?thesis by simp
qed

theorem path_after_New_and_Child_witness:
  "has_scheme (reached_path empty_world ''https://example.com/a/'' None [''b''])
   \<and> \<not> trailing_slash (reached_path empty_world ''https://example.com/a/'' None [''b''])
   \<and> has_scheme (reached_path empty_world ''example.com'' None [])
   \<and> \<not> trailing_slash (reached_path empty_world ''example.com'' None [])"
  using path_after_New_and_Child [of empty_world "''https://example.com/a/''" None "[''b'']"]
    path_after_New_and_Child [of empty_world "''example.com''" None "[]"]
  by (simp add: plain_input_def trailing_slash_def HasSuffix_def)

text \<open>
  Claim C9 as stated fails: \<^verbatim>\<open>New("example.com").Child("")\<close> has a path that ends with a
  slash, and \<^verbatim>\<open>New("")\<close> has the path \<^verbatim>\<open>https:/\<close>.
\<close>

theorem path_counterexample:
  "reached_path empty_world ''example.com'' None [[]] = ''https://example.com/''
   \<and> trailing_slash (reached_path empty_world ''example.com'' None [[]])
   \<and> reached_path empty_world [] None [] = ''https:/''
   \<and> \<not> has_scheme (reached_path empty_world [] None [])"
  by (simp add: reached_path_eq sanitizeURL_def has_scheme_def trailing_slash_def
      HasPrefix_def HasSuffix_def)

subsection \<open>\<^verbatim>\<open>Auth\<close> and \<^verbatim>\<open>Unauth\<close>\<close>

lemma New_example:
  "New empty_world ''https://example.com/a/'' None = (0, example_world fmempty)"
  by (simp add: New_def empty_world_def new_Client_def make_Values_def make_chan_def
      new_Firebase_def sanitizeURL_def HasPrefix_def HasSuffix_def example_world_def example_ref_def)

lemma Auth_Unauth_eq:
  assumes "params (objs w ! fb) = Some a" and "a < length (vals w)"
  shows "Auth_Unauth w fb t = Ok (w\<lparr>vals := (vals w)[a := fmdrop authParam (vals w ! a)]\<rparr>)"
  using assms
  by (simp add: Auth_Unauth_def Auth_def Unauth_def Values_Set_def Values_Del_def map_assign_def
      and_then_def fmdrop_fmupd_same)

text \<open>
  Claim C8, as the code has it. On a reference whose query map is allocated, \<^verbatim>\<open>Auth(t)\<close>
  and then \<^verbatim>\<open>Unauth()\<close> leave the heap as it was but for the \<^verbatim>\<open>auth\<close> key, which is
  removed from the map of the reference: the state before \<^verbatim>\<open>Auth\<close> is restored exactly when
  the map had no \<^verbatim>\<open>auth\<close> key.
\<close>

theorem Auth_then_Unauth:
  assumes "params (objs w ! fb) = Some a" and "a < length (vals w)"
  shows "Auth_Unauth w fb t = Ok (w\<lparr>vals := (vals w)[a := fmdrop authParam (vals w ! a)]\<rparr>)
       \<and> (Auth_Unauth w fb t = Ok w \<longleftrightarrow> fmlookup (vals w ! a) authParam = None)"
proof -
  have "w\<lparr>vals := (vals w)[a := fmdrop authParam (vals w ! a)]\<rparr> = w
          \<longleftrightarrow> fmlookup (vals w ! a) authParam = None"
  proof
    assume "w\<lparr>vals := (vals w)[a := fmdrop authParam (vals w ! a)]\<rparr> = w"
    then have "vals (w\<lparr>vals := (vals w)[a := fmdrop authParam (vals w ! a)]\<rparr>) ! a = vals w ! a"
      by simp
    with assms(2) have "fmdrop authParam (vals w ! a) = vals w ! a" by simp
    then have "fmlookup (fmdrop authParam (vals w ! a)) authParam = fmlookup (vals w ! a) authParam"
      by simp
    then show "fmlookup (vals w ! a) authParam = None" by simp
  next
    assume "fmlookup (vals w ! a) authParam = None"
    then have "fmdrop authParam (vals w ! a) = vals w ! a"
      by (intro fmap_ext) auto
    then show "w\<lparr>vals := (vals w)[a := fmdrop authParam (vals w ! a)]\<rparr> = w" by simp
  qed
  with Auth_Unauth_eq [OF assms] show ?thesis by simp
qed

theorem Auth_then_Unauth_witness:
  "params (objs (example_world fmempty) ! 0) = Some 0
   \<and> 0 < length (vals (example_world fmempty))
   \<and> Auth_Unauth (example_world fmempty) 0 ''token'' = Ok (example_world fmempty)"
  using Auth_then_Unauth [of "example_world fmempty" 0 0 "''token''"]
  by (simp add: example_world_def example_ref_def)

text \<open>
  Claim C8 as stated fails on a map that already has an \<^verbatim>\<open>auth\<close> key: after \<^verbatim>\<open>Auth("t")\<close>
  and \<^verbatim>\<open>Unauth()\<close> the key is gone, the value \<^verbatim>\<open>old\<close> is not restored.
\<close>

theorem Auth_then_Unauth_counterexample:
  "Auth (example_world (fmupd authParam [''old''] fmempty)) 0 ''t''
     = Ok (example_world (fmupd authParam [''t''] fmempty))
   \<and> Unauth (example_world (fmupd authParam [''t''] fmempty)) 0 = example_world fmempty
   \<and> example_world fmempty \<noteq> example_world (fmupd authParam [''old''] fmempty)"
proof -
  have "fmlookup (fmupd authParam [''old''] fmempty) authParam \<noteq> fmlookup fmempty authParam"
    by simp
  then have "fmupd authParam [''old''] fmempty \<noteq> (fmempty :: Values)" by metis
  then show ?thesis
    by (simp add: Auth_def Unauth_def Values_Set_def Values_Del_def map_assign_def
        example_world_def example_ref_def fmdrop_fmupd_same)
qed

subsection \<open>\<^verbatim>\<open>redirectPreserveHeaders\<close>\<close>

lemma fold_assign_lookup:
  "fmlookup (fold (\<lambda>k d. case fmlookup src k of None \<Rightarrow> d | Some v \<Rightarrow> fmupd k v d) ks dst) x
     = (if x \<in> set ks \<and> fmlookup src x \<noteq> None then fmlookup src x else fmlookup dst x)"
  by (induction ks arbitrary: dst) (auto split: option.splits)

lemma range_assign_eq: "range_assign dst src = dst ++\<^sub>f src"
proof (rule fmap_ext)
  fix x
  show "fmlookup (range_assign dst src) x = fmlookup (dst ++\<^sub>f src) x"
    unfolding range_assign_def fold_assign_lookup
    by (auto simp: fmdom_notI dest: fmdom_notD)
qed

text \<open>
  Claim C7. When the client follows a redirect it calls the policy with the requests made
  so far, oldest first, at least one and (for the redirect to be followed) at most
  \<^verbatim>\<open>defaultRedirectLimit\<close> of them, and with a redirected request whose header is allocated.
  The policy then returns no error, and the header of the redirected request holds every
  key of the first request with the first request's values, in place of its own values for
  those keys; its other keys are as they were.
\<close>

theorem redirectPreserveHeaders_copies:
  assumes "via \<noteq> []" and "length via \<le> defaultRedirectLimit" and "Header req = Some h"
  shows "redirectPreserveHeaders req via
           = Ok (None, req\<lparr>Header := Some (h ++\<^sub>f header_entries (via ! 0))\<rparr>)
         \<and> (\<forall>key val. fmlookup (header_entries (via ! 0)) key = Some val \<longrightarrow>
               fmlookup (h ++\<^sub>f header_entries (via ! 0)) key = Some val)
         \<and> (\<forall>key. fmlookup (header_entries (via ! 0)) key = None \<longrightarrow>
               fmlookup (h ++\<^sub>f header_entries (via ! 0)) key = fmlookup h key)"
proof -
  have same: "req\<lparr>Header := Some h\<rparr> = req" using assms(3) by simp
  have "redirectPreserveHeaders req via
          = Ok (None, req\<lparr>Header := Some (h ++\<^sub>f header_entries (via ! 0))\<rparr>)"
    using assms same
    by (auto simp: redirectPreserveHeaders_def header_entries_def range_assign_eq
        split: option.splits)
  moreover have "fmlookup (h ++\<^sub>f header_entries (via ! 0)) key = Some val"
    if "fmlookup (header_entries (via ! 0)) key = Some val" for key val
    using that by (simp add: fmdomI)
  moreover have "fmlookup (h ++\<^sub>f header_entries (via ! 0)) key = fmlookup h key"
    if "fmlookup (header_entries (via ! 0)) key = None" for key
    using that by (simp add: fmdom_notI)
  ultimately show ?thesis by blast
qed

theorem redirectPreserveHeaders_copies_witness:
  "[get_request (fmupd ''Authorization'' [''Bearer x''] fmempty)] \<noteq> []
   \<and> length [get_request (fmupd ''Authorization'' [''Bearer x''] fmempty)] \<le> defaultRedirectLimit
   \<and> Header (get_request (fmupd ''Accept'' [''*''] fmempty)) = Some (fmupd ''Accept'' [''*''] fmempty)
   \<and> redirectPreserveHeaders (get_request (fmupd ''Accept'' [''*''] fmempty))
        [get_request (fmupd ''Authorization'' [''Bearer x''] fmempty)]
       = Ok (None, get_request (fmupd ''Accept'' [''*''] fmempty
                                  ++\<^sub>f fmupd ''Authorization'' [''Bearer x''] fmempty))
   \<and> fmlookup (fmupd ''Accept'' [''*''] fmempty ++\<^sub>f fmupd ''Authorization'' [''Bearer x''] fmempty)
        ''Authorization'' = Some [''Bearer x'']"
  using redirectPreserveHeaders_copies
    [of "[get_request (fmupd ''Authorization'' [''Bearer x''] fmempty)]"
        "get_request (fmupd ''Accept'' [''*''] fmempty)" "fmupd ''Accept'' [''*''] fmempty"]
  by (simp add: get_request_def defaultRedirectLimit_def header_entries_def)


subsection \<open>\<^verbatim>\<open>String\<close> and \<^verbatim>\<open>doRequest\<close>\<close>

lemma parseQuery_Nil: "parseQuery m err [] = (m, err)"
  by (subst parseQuery.simps) simp

lemma String_eq:
  "String env w fb =
     Ok (url (objs w ! fb) @ ''/.json''
           @ (if fmdom (with_token (reparsed (params_of w fb)) (resolved_token env w fb)) \<noteq> {||}
              then ''?'' @ Encode (with_token (reparsed (params_of w fb)) (resolved_token env w fb))
              else []),
         w\<lparr>vals := vals w @ [with_token (reparsed (params_of w fb)) (resolved_token env w fb)],
           calls := calls w @ token_calls w fb\<rparr>)"
proof -
  have e0: "Encode fmempty = []"
    by (simp add: Encode_def sorted_list_of_fset.rep_eq)
  have enc': "Values_Encode w (params (objs w ! fb)) = Encode (params_of w fb)"
    by (auto simp: Values_Encode_def params_of_def e0 split: option.splits)
  have card: "0 < fcard (fmdom m) \<longleftrightarrow> fmdom m \<noteq> {||}" for m :: Values
    by (metis fcard_fempty fcard_seteq fempty_fsubsetI less_eq_nat.simps(1) not_gr_zero)
  show ?thesis
    unfolding String_def ParseQuery_def make_Values_def enc'
    by (auto simp: Let_def and_then_def Values_Add_def Values_len_def Values_Encode_def
        map_assign_def reparsed_def resolved_token_def token_calls_def with_token_def card
        split: prod.splits option.splits sum.splits)
qed

lemma quo_200: "quo s 200 = 1 \<longleftrightarrow> 200 \<le> s \<and> s < 400"
proof (cases "0 \<le> s")
  case True
  then have "quo s 200 = s div 200" by (cases "s = 0") (auto simp: quo_def sgn_if)
  then show ?thesis by auto
next
  case False
  then have "quo s 200 = - ((- s) div 200)" by (simp add: quo_def sgn_if)
  moreover from False have "0 \<le> (- s) div 200" by simp
  ultimately show ?thesis using False by linarith
qed

lemma net_Error_has_Timeout: "is_net_Error e \<Longrightarrow> has_Timeout e"
  by (cases e) simp_all

lemma reported_timeout_cases:
  "reported_timeout err \<longleftrightarrow>
     (case err of UrlError op u inner \<Rightarrow> is_net_Error inner \<and> Timeout inner
      | _ \<Rightarrow> is_net_Error err \<and> Timeout err)"
  by (cases err)
     (auto simp: reported_timeout_def is_url_Error_def net_timeout_def wrapped_net_timeout_def)

lemma claimed_timeout_cases:
  "net_timeout err \<or> wrapped_net_timeout err \<longleftrightarrow> reported_timeout err \<or> wraps_timeout_only err"
  using net_Error_has_Timeout
  by (cases err)
     (auto simp: reported_timeout_def is_url_Error_def net_timeout_def wrapped_net_timeout_def
        wraps_timeout_only_def)

lemma reported_not_timeout_only: "\<not> (reported_timeout err \<and> wraps_timeout_only err)"
  by (cases err)
     (auto simp: reported_timeout_def is_url_Error_def net_timeout_def wrapped_net_timeout_def
        wraps_timeout_only_def)

text \<open>
  Claim C4, as the code has it. Once the request is built, an error of the transport is
  returned as an \<^verbatim>\<open>ErrTimeout\<close> that wraps it exactly when it is a \<^verbatim>\<open>*url.Error\<close> whose
  \<^verbatim>\<open>Err\<close> is a \<^verbatim>\<open>net.Error\<close> with \<^verbatim>\<open>Timeout()\<close> true, or is of another type and is itself a
  \<^verbatim>\<open>net.Error\<close> with \<^verbatim>\<open>Timeout()\<close> true; every other error of the transport is returned as
  it is. These are the errors of the claim (a \<^verbatim>\<open>net.Error\<close> with \<^verbatim>\<open>Timeout()\<close> true, as it
  is or wrapped in a \<^verbatim>\<open>*url.Error\<close>) but for one kind, which is returned as it is: a
  \<^verbatim>\<open>*url.Error\<close> whose \<^verbatim>\<open>Err\<close> has a \<^verbatim>\<open>Timeout\<close> method that is true and is not a
  \<^verbatim>\<open>net.Error\<close>.
\<close>

theorem doRequest_transport_error:
  assumes "String env w fb = Ok (u, w1)"
      and "NewRequest env method u body = Inr req"
      and "Do env (client (objs w1 ! fb)) (with_ctx req ctx) (calls w1) = Inl err"
  shows "doRequest env w fb ctx method body
           = Ok (Inl (if reported_timeout err then ErrTimeout err else err),
                 sent w1 fb (with_ctx req ctx))
       \<and> (net_timeout err \<or> wrapped_net_timeout err
            \<longleftrightarrow> reported_timeout err \<or> wraps_timeout_only err)
       \<and> \<not> (reported_timeout err \<and> wraps_timeout_only err)"
proof -
  have "doRequest env w fb ctx method body
          = Ok (Inl (if reported_timeout err then ErrTimeout err else err),
                sent w1 fb (with_ctx req ctx))"
    using assms
    unfolding reported_timeout_cases
    by (cases err) (auto simp: doRequest_def and_then_def with_ctx_def sent_def Let_def
        split: option.splits)
  with claimed_timeout_cases reported_not_timeout_only show ?thesis by blast
qed

text \<open>
  Claim C1, as the code has it. The test is \<^verbatim>\<open>resp.StatusCode/200 != 1\<close>: for a response whose
  body is read in full, \<^verbatim>\<open>doRequest\<close> returns the body as the success value when the status
  is in [200,400), and otherwise an error whose message is the body.
\<close>

theorem doRequest_response:
  assumes "String env w fb = Ok (u, w1)"
      and "NewRequest env method u body = Inr req"
      and "Do env (client (objs w1 ! fb)) (with_ctx req ctx) (calls w1) = Inr resp"
      and "RespBody resp = Inr b"
  shows "doRequest env w fb ctx method body
           = Ok (if 200 \<le> StatusCode resp \<and> StatusCode resp < 400 then Inr b
                 else Inl (ErrorString b),
                 sent w1 fb (with_ctx req ctx))
         \<and> Error (ErrorString b) = b"
  using assms
  by (auto simp: doRequest_def and_then_def with_ctx_def sent_def Let_def quo_200
      split: option.splits)

lemma Encode_empty: "Encode fmempty = []"
  by (simp add: Encode_def sorted_list_of_fset.rep_eq)

lemma reparsed_empty: "reparsed fmempty = fmempty"
  by (simp add: reparsed_def Encode_empty parseQuery_Nil)

lemma String_example:
  "String (respond r) (example_world fmempty) 0 = Ok (''https://example.com/a/.json'', rendered_world)"
  by (simp add: String_eq params_of_def resolved_token_def token_calls_def with_token_def
      reparsed_empty example_world_def example_ref_def rendered_world_def)

lemma NewRequest_example:
  "NewRequest (respond r) ''GET'' ''https://example.com/a/.json'' [] = Inr (get_request fmempty)"
  by (simp add: NewRequest_def respond_def get_request_def)

lemma Do_example: "Do (respond r) c req evs = r"
  by (simp add: respond_def)

lemma client_example: "client (objs rendered_world ! 0) = 0"
  by (simp add: rendered_world_def example_world_def example_ref_def)

theorem doRequest_response_witness:
  "String (respond (response 403 ''permission denied'')) (example_world fmempty) 0
     = Ok (''https://example.com/a/.json'', rendered_world)
   \<and> NewRequest (respond (response 403 ''permission denied'')) ''GET'' ''https://example.com/a/.json'' []
       = Inr (get_request fmempty)
   \<and> Do (respond (response 403 ''permission denied'')) 0 (get_request fmempty) []
       = Inr \<lparr>StatusCode = 403, RespBody = Inr ''permission denied''\<rparr>
   \<and> doRequest (respond (response 403 ''permission denied'')) (example_world fmempty) 0 None ''GET'' []
       = Ok (Inl (ErrorString ''permission denied''), sent rendered_world 0 (get_request fmempty))
   \<and> Error (ErrorString ''permission denied'') = ''permission denied''"
proof -
  let ?env = "respond (response 403 ''permission denied'')"
  let ?resp = "\<lparr>StatusCode = 403, RespBody = Inr ''permission denied''\<rparr>"
  have s: "String ?env (example_world fmempty) 0 = Ok (''https://example.com/a/.json'', rendered_world)"
    by (rule String_example)
  have n: "NewRequest ?env ''GET'' ''https://example.com/a/.json'' [] = Inr (get_request fmempty)"
    by (rule NewRequest_example)
  have d: "Do ?env (client (objs rendered_world ! 0)) (with_ctx (get_request fmempty) None)
             (calls rendered_world) = Inr ?resp"
    by (simp add: Do_example response_def)
  have b: "RespBody ?resp = Inr ''permission denied''" by simp
  from doRequest_response [OF s n d b] s n show ?thesis
    by (simp add: with_ctx_def Do_example response_def)
qed

text \<open>
  Claim C1 as stated fails: a response with status 304 is not in [200,300), and
  \<^verbatim>\<open>doRequest\<close> returns its body as the success value, since \<^verbatim>\<open>304/200\<close> is \<^verbatim>\<open>1\<close>.
\<close>

theorem doRequest_response_counterexample:
  "doRequest (respond (response 304 ''not modified'')) (example_world fmempty) 0 None ''GET'' []
       = Ok (Inr ''not modified'', sent rendered_world 0 (get_request fmempty))"
proof -
  have "quo 304 200 = 1" by (simp add: quo_def)
  then show ?thesis
    by (simp add: doRequest_def String_example NewRequest_example Do_example and_then_def
        response_def sent_def client_example)
qed

theorem doRequest_transport_error_witness:
  "doRequest (respond (Inl (UrlError ''Get'' ''https://example.com/a/.json'' (NetError ''i/o timeout'' True))))
       (example_world fmempty) 0 None ''GET'' []
     = Ok (Inl (ErrTimeout (UrlError ''Get'' ''https://example.com/a/.json'' (NetError ''i/o timeout'' True))),
           sent rendered_world 0 (get_request fmempty))
   \<and> doRequest (respond (Inl (NetError ''dial tcp: i/o timeout'' True)))
       (example_world fmempty) 0 None ''GET'' []
     = Ok (Inl (ErrTimeout (NetError ''dial tcp: i/o timeout'' True)),
           sent rendered_world 0 (get_request fmempty))
   \<and> doRequest (respond (Inl (UrlError ''Get'' ''https://example.com/a/.json'' (ErrorString ''connection refused''))))
       (example_world fmempty) 0 None ''GET'' []
     = Ok (Inl (UrlError ''Get'' ''https://example.com/a/.json'' (ErrorString ''connection refused'')),
           sent rendered_world 0 (get_request fmempty))
   \<and> doRequest (respond (Inl (NetError ''connection reset by peer'' False)))
       (example_world fmempty) 0 None ''GET'' []
     = Ok (Inl (NetError ''connection reset by peer'' False),
           sent rendered_world 0 (get_request fmempty))"
proof -
  have d: "Do (respond (Inl e)) (client (objs rendered_world ! 0)) (with_ctx (get_request fmempty) None)
             (calls rendered_world) = Inl e" for e
    by (rule Do_example)
  note t = doRequest_transport_error [OF String_example NewRequest_example d]
  show ?thesis
    using t [of "UrlError ''Get'' ''https://example.com/a/.json'' (NetError ''i/o timeout'' True)"]
      t [of "NetError ''dial tcp: i/o timeout'' True"]
      t [of "UrlError ''Get'' ''https://example.com/a/.json'' (ErrorString ''connection refused'')"]
      t [of "NetError ''connection reset by peer'' False"]
    by (simp add: with_ctx_def reported_timeout_def is_url_Error_def net_timeout_def
        wrapped_net_timeout_def)
qed

text \<open>
  Claim C4 as stated fails on a \<^verbatim>\<open>*url.Error\<close> that wraps an error with a \<^verbatim>\<open>Timeout\<close> method
  and no \<^verbatim>\<open>Temporary\<close> method: the \<^verbatim>\<open>*url.Error\<close> is a \<^verbatim>\<open>net.Error\<close> whose \<^verbatim>\<open>Timeout()\<close> is
  true, and \<^verbatim>\<open>doRequest\<close> returns it as it is, since \<^verbatim>\<open>err.Err.(net.Error)\<close> fails.
\<close>

theorem doRequest_transport_error_counterexample:
  "is_net_Error (UrlError ''Get'' ''https://example.com/a/.json'' (TimeoutOnlyError ''i/o timeout'' True))
   \<and> Timeout (UrlError ''Get'' ''https://example.com/a/.json'' (TimeoutOnlyError ''i/o timeout'' True))
   \<and> doRequest (respond (Inl (UrlError ''Get'' ''https://example.com/a/.json''
                                  (TimeoutOnlyError ''i/o timeout'' True))))
       (example_world fmempty) 0 None ''GET'' []
     = Ok (Inl (UrlError ''Get'' ''https://example.com/a/.json'' (TimeoutOnlyError ''i/o timeout'' True)),
           sent rendered_world 0 (get_request fmempty))"
  by (simp add: doRequest_def String_example NewRequest_example Do_example and_then_def
      sent_def client_example)

subsection \<open>\<^verbatim>\<open>MustValueC\<close> and \<^verbatim>\<open>PushC\<close>\<close>

lemma unmarshal_calls_append:
  "unmarshal_calls (w\<lparr>calls := calls w @ evs\<rparr>)
     = unmarshal_calls w @ concat (map (\<lambda>e. case e of UnmarshalCall b \<Rightarrow> [b] | _ \<Rightarrow> []) evs)"
  by (simp add: unmarshal_calls_def)

lemma no_unmarshal_in_token_calls:
  "concat (map (\<lambda>e. case e of UnmarshalCall b \<Rightarrow> [b] | _ \<Rightarrow> []) (token_calls w fb)) = []"
  by (cases "tokenSrc (objs w ! fb)") (simp_all add: token_calls_def)

lemma String_unmarshal_calls:
  assumes "String env w fb = Ok (u, w1)"
  shows "unmarshal_calls w1 = unmarshal_calls w"
  using assms unfolding String_eq
  by (auto simp: unmarshal_calls_def no_unmarshal_in_token_calls)

lemma sent_unmarshal_calls: "unmarshal_calls (sent w fb req) = unmarshal_calls w"
  by (simp add: sent_def unmarshal_calls_def)

lemma doRequest_world:
  assumes "String env w fb = Ok (u, w1)" and "doRequest env w fb ctx method body = Ok (r, w2)"
  shows "w2 = w1 \<or> (\<exists>req. w2 = sent w1 fb req)"
  using assms
  by (auto simp: doRequest_def and_then_def Let_def sent_def
      split: sum.splits go_error.splits if_splits)

lemma doRequest_unmarshal_calls:
  assumes "doRequest env w fb ctx method body = Ok (r, w2)"
  shows "unmarshal_calls w2 = unmarshal_calls w"
proof -
  obtain u w1 where s: "String env w fb = Ok (u, w1)" by (simp add: String_eq)
  from doRequest_world [OF s assms] String_unmarshal_calls [OF s] show ?thesis
    by (auto simp: sent_unmarshal_calls)
qed

text \<open>
  Claim C6, as the code has it. Let the GET round trip of \<^verbatim>\<open>MustValueC\<close> return \<open>r\<close>. When
  \<open>r\<close> is a success with an empty body or the body \<^verbatim>\<open>null\<close>, \<^verbatim>\<open>MustValueC\<close> returns
  \<^verbatim>\<open>ErrValueMissing\<close>, leaves the caller's value alone and has not called the deserializer;
  on any other successful body it returns what the deserializer returns on that body, after
  one call of it; an error of the round trip is returned as it is. So \<^verbatim>\<open>ErrValueMissing\<close> is
  returned in no other case than the first as long as neither the round trip nor the
  deserializer returns that package variable themselves. \<^verbatim>\<open>MustValue\<close> is \<^verbatim>\<open>MustValueC\<close> with
  the nil context.
\<close>

theorem MustValueC_missing:
  assumes "doRequest env w fb ctx ''GET'' [] = Ok (r, w1)"
  shows "(missing_body r \<longrightarrow>
            MustValueC env w fb ctx v = Ok ((Some ErrValueMissing, v), w1)
            \<and> unmarshal_calls w1 = unmarshal_calls w)
       \<and> (\<forall>b. r = Inr b \<and> \<not> missing_body r \<longrightarrow>
            MustValueC env w fb ctx v
              = Ok (Unmarshal env b v, w1\<lparr>calls := calls w1 @ [UnmarshalCall b]\<rparr>)
            \<and> unmarshal_calls (w1\<lparr>calls := calls w1 @ [UnmarshalCall b]\<rparr>) = unmarshal_calls w @ [b])
       \<and> (\<forall>err. r = Inl err \<longrightarrow> MustValueC env w fb ctx v = Ok ((Some err, v), w1))
       \<and> (r \<noteq> Inl ErrValueMissing \<and> (\<forall>b. fst (Unmarshal env b v) \<noteq> Some ErrValueMissing) \<longrightarrow>
            ((\<exists>v' w2. MustValueC env w fb ctx v = Ok ((Some ErrValueMissing, v'), w2))
               \<longleftrightarrow> missing_body r))
       \<and> MustValue env w fb v = MustValueC env w fb None v"
proof -
  note u = doRequest_unmarshal_calls [OF assms]
  have a: "MustValueC env w fb ctx v = Ok ((Some ErrValueMissing, v), w1)" if "missing_body r"
    using that assms
    by (auto simp: MustValueC_def and_then_def missing_body_def split: sum.splits)
  have b: "MustValueC env w fb ctx v
             = Ok (Unmarshal env b v, w1\<lparr>calls := calls w1 @ [UnmarshalCall b]\<rparr>)"
    if "r = Inr b" "\<not> missing_body r" for b
    using that assms
    by (auto simp: MustValueC_def and_then_def missing_body_def)
  have e: "MustValueC env w fb ctx v = Ok ((Some err, v), w1)" if "r = Inl err" for err
    using that assms by (simp add: MustValueC_def and_then_def)
  have c: "missing_body r"
    if "MustValueC env w fb ctx v = Ok ((Some ErrValueMissing, v'), w2)"
      and "r \<noteq> Inl ErrValueMissing"
      and "\<forall>b. fst (Unmarshal env b v) \<noteq> Some ErrValueMissing"
    for v' w2
  proof (rule ccontr)
    assume n: "\<not> missing_body r"
    show False
    proof (cases r)
      case (Inl err)
      with e [OF Inl] that(1) have "err = ErrValueMissing" by simp
      with Inl that(2) show False by simp
    next
      case (Inr b)
      from b [OF Inr n] that(1) have "fst (Unmarshal env b v) = Some ErrValueMissing"
        by (metis exec.inject fst_conv)
      with that(3) show False by simp
    qed
  qed
  have m: "MustValue env w fb v = MustValueC env w fb None v" by (simp add: MustValue_def)
  from a b c e u m show ?thesis
    by (auto simp: unmarshal_calls_append)
qed

lemma doRequest_example:
  "doRequest (respond (response 200 body)) (example_world fmempty) 0 None ''GET'' []
     = Ok (Inr body, sent rendered_world 0 (get_request fmempty))"
proof -
  have "quo 200 200 = 1" by (simp add: quo_def)
  then show ?thesis
    by (simp add: doRequest_def String_example NewRequest_example Do_example and_then_def
        response_def sent_def client_example)
qed

theorem MustValueC_missing_witness:
  "doRequest (respond (response 200 ''null'')) (example_world fmempty) 0 None ''GET'' []
     = Ok (Inr ''null'', sent rendered_world 0 (get_request fmempty))
   \<and> MustValue (respond (response 200 ''null'')) (example_world fmempty) 0 ''old''
     = Ok ((Some ErrValueMissing, ''old''), sent rendered_world 0 (get_request fmempty))
   \<and> MustValue (respond (response 200 [])) (example_world fmempty) 0 ''old''
     = Ok ((Some ErrValueMissing, ''old''), sent rendered_world 0 (get_request fmempty))
   \<and> unmarshal_calls (sent rendered_world 0 (get_request fmempty)) = []
   \<and> MustValue (respond (response 200 x1_body)) (example_world fmempty) 0 ''old''
     = Ok ((None, x1_body),
           (sent rendered_world 0 (get_request fmempty))
             \<lparr>calls := calls (sent rendered_world 0 (get_request fmempty)) @ [UnmarshalCall x1_body]\<rparr>)
   \<and> MustValueC (respond (response 200 x1_body)) (example_world fmempty) 0 None ''old''
     = MustValue (respond (response 200 x1_body)) (example_world fmempty) 0 ''old''"
proof -
  note t = MustValueC_missing [OF doRequest_example, where v = "''old''"]
  have u: "Unmarshal (respond r) b v = (None, b)" for r b v by (simp add: respond_def)
  have x: "\<not> missing_body (Inr x1_body)" by (simp add: missing_body_def x1_body_def)
  show ?thesis
    using t [of "''null''"] t [of "[]"] t [of x1_body] x doRequest_example [of "''null''"]
    by (simp add: missing_body_def u unmarshal_calls_def sent_def rendered_world_def
        example_world_def)
qed

text \<open>
  Claim C6 as stated fails with a deserializer that returns \<^verbatim>\<open>ErrValueMissing\<close> itself: on the
  successful body \<^verbatim>\<open>{"x":1}\<close>, which is neither empty nor \<^verbatim>\<open>null\<close>, \<^verbatim>\<open>MustValue\<close> hands the body
  to the deserializer and returns \<^verbatim>\<open>ErrValueMissing\<close>.
\<close>

theorem MustValueC_missing_counterexample:
  "doRequest (refusing (respond (response 200 x1_body))) (example_world fmempty) 0 None ''GET'' []
     = Ok (Inr x1_body, sent rendered_world 0 (get_request fmempty))
   \<and> \<not> missing_body (Inr x1_body)
   \<and> MustValue (refusing (respond (response 200 x1_body))) (example_world fmempty) 0 ''old''
     = Ok ((Some ErrValueMissing, ''old''),
           (sent rendered_world 0 (get_request fmempty))
             \<lparr>calls := calls (sent rendered_world 0 (get_request fmempty)) @ [UnmarshalCall x1_body]\<rparr>)"
proof -
  have t: "Token (refusing env) = Token env" "request_error (refusing env) = request_error env"
    "Do (refusing env) = Do env" for env
    by (simp_all add: refusing_def)
  have "resolved_token (refusing env) w fb = resolved_token env w fb" for env w fb
    unfolding resolved_token_def t by (rule refl)
  then have s: "String (refusing env) w fb = String env w fb" for env w fb
    by (simp add: String_eq)
  have d: "doRequest (refusing env) w fb ctx verb body = doRequest env w fb ctx verb body"
    for env w fb ctx verb body
    unfolding doRequest_def s NewRequest_def t by (rule refl)
  have u: "Unmarshal (refusing env) b v = (Some ErrValueMissing, v)" for env b v
    by (simp add: refusing_def)
  have x: "x1_body \<noteq> []" "x1_body \<noteq> ''null''" by (simp_all add: x1_body_def)
  from x show ?thesis
    by (simp add: MustValue_def MustValueC_def d doRequest_example and_then_def u missing_body_def)
qed

lemma NewRequest_respond:
  "NewRequest (respond r) method u body
     = Inr \<lparr>Method = method, URL = u, Body = body, Header = Some fmempty, Ctx = None\<rparr>"
  by (simp add: NewRequest_def respond_def)

lemma doRequest_post_example:
  "doRequest (respond (response 200 body)) (example_world fmempty) 0 None ''POST'' v
     = Ok (Inr body, sent rendered_world 0 (post_request v))"
proof -
  have "quo 200 200 = 1" by (simp add: quo_def)
  then show ?thesis
    by (simp add: doRequest_def String_example NewRequest_respond Do_example and_then_def
        response_def sent_def client_example post_request_def)
qed

text \<open>
  Claim C3 at a concrete input. \<^verbatim>\<open>Push\<close> on the reference of \<^verbatim>\<open>New("https://example.com/a/", nil)\<close>,
  answered with status 200 and an object whose \<^verbatim>\<open>name\<close> is \<^verbatim>\<open>-Kabc\<close>, returns a reference
  with the path of the parent, a slash and the key, and with the client of the parent; but
  its query map and its channel are nil, not fresh, and \<^verbatim>\<open>Auth\<close> on it panics, while \<^verbatim>\<open>Auth\<close>
  on the reference that \<^verbatim>\<open>New\<close> made returns.
\<close>

theorem PushC_nil_params:
  "PushC (respond (response 200 push_body)) (example_world fmempty) 0 None ''1''
     = Ok (Inr 1, pushed_world)
   \<and> objs pushed_world ! 1 = pushed_ref
   \<and> params pushed_ref = None
   \<and> stopWatching pushed_ref = None
   \<and> Auth pushed_world 1 ''token'' = Panic nil_map_assignment
   \<and> New empty_world ''https://example.com/a/'' None = (0, example_world fmempty)
   \<and> params (objs (example_world fmempty) ! 0) = Some 0
   \<and> Auth (example_world fmempty) 0 ''token''
       = Ok (example_world (fmupd authParam [''token''] fmempty))"
proof -
  have m: "Marshal (respond r) v = Inr v" for r v by (simp add: respond_def)
  have u: "Unmarshal_map (respond r) push_body = Inr (fmupd ''name'' ''-Kabc'' fmempty)" for r
    by (simp add: respond_def)
  have p: "PushC (respond (response 200 push_body)) (example_world fmempty) 0 None ''1''
             = Ok (Inr 1, pushed_world)"
    unfolding PushC_def m doRequest_post_example
    by (simp add: u and_then_def new_Firebase_def index_map_def post_request_def
        sent_def rendered_world_def example_world_def example_ref_def pushed_world_def
        pushed_ref_def)
  have a: "Auth pushed_world 1 ''token'' = Panic nil_map_assignment"
    by (simp add: Auth_def Values_Set_def pushed_world_def pushed_ref_def)
  have b: "Auth (example_world fmempty) 0 ''token''
             = Ok (example_world (fmupd authParam [''token''] fmempty))"
    by (simp add: Auth_def Values_Set_def map_assign_def example_world_def example_ref_def)
  from p a b New_example show ?thesis
    by (simp add: pushed_world_def pushed_ref_def example_world_def example_ref_def)
qed

subsection \<open>\<^verbatim>\<open>Encode\<close> and \<^verbatim>\<open>ParseQuery\<close>\<close>

lemma hex_values:
  "map (\<lambda>n. (ishex (upperhex ! n), unhex (upperhex ! n))) [0..<16] = map (\<lambda>n. (True, n)) [0..<16]"
  by (simp add: upt_rec upperhex_def ishex_def unhex_def)

lemma hex_digit:
  assumes "n < 16"
  shows "ishex (upperhex ! n) \<and> unhex (upperhex ! n) = n \<and> upperhex ! n \<in> set upperhex"
proof -
  from assms have "map (\<lambda>n. (ishex (upperhex ! n), unhex (upperhex ! n))) [0..<16] ! n
                     = map (\<lambda>n. (True, n)) [0..<16] ! n"
    by (simp only: hex_values)
  with assms have "ishex (upperhex ! n) \<and> unhex (upperhex ! n) = n" by simp
  moreover from assms have "upperhex ! n \<in> set upperhex"
    by (intro nth_mem) (simp add: upperhex_def)
  ultimately show ?thesis by simp
qed


lemma not_shouldEscape_plain:
  assumes "\<not> shouldEscape c"
  shows "c \<noteq> CHR ''%'' \<and> c \<noteq> CHR ''+'' \<and> c \<noteq> CHR ''='' \<and> \<not> is_sep c"
proof -
  have "shouldEscape CHR ''%''" "shouldEscape CHR ''+''" "shouldEscape CHR ''=''"
    "shouldEscape CHR ''&''" "shouldEscape CHR '';''"
    by (simp_all add: shouldEscape_def alnum_def)
  with assms show ?thesis by (auto simp: is_sep_def)
qed

lemma upperhex_plain:
  assumes "c \<in> set upperhex"
  shows "c \<noteq> CHR ''='' \<and> \<not> is_sep c"
  using assms by (auto simp: upperhex_def is_sep_def)

lemma byte_split: "char_of (of_char c div 16 * 16 + of_char c mod 16 :: nat) = c"
  by simp

lemma QueryUnescape_QueryEscape: "QueryUnescape (QueryEscape s) = Inr s"
proof (induction s)
  case Nil
  then show ?case by simp
next
  case (Cons c s)
  have lt: "(of_char c :: nat) div 16 < 16" "(of_char c :: nat) mod 16 < 16"
    using nat_of_char_less_256 [of c] by (simp_all add: less_mult_imp_div_less)
  show ?case
  proof (cases "c = CHR '' ''")
    case True
    with Cons show ?thesis by simp
  next
    case sp: False
    show ?thesis
    proof (cases "shouldEscape c")
      case True
      with sp Cons hex_digit [OF lt(1)] hex_digit [OF lt(2)] show ?thesis
        by (simp add: byte_split)
    next
      case False
      with sp Cons not_shouldEscape_plain [OF False] show ?thesis by simp
    qed
  qed
qed

lemma QueryEscape_plain:
  "c \<in> set (QueryEscape s) \<Longrightarrow> c \<noteq> CHR ''='' \<and> \<not> is_sep c"
proof (induction s)
  case Nil
  then show ?case by simp
next
  case (Cons d s)
  have lt: "(of_char d :: nat) div 16 < 16" "(of_char d :: nat) mod 16 < 16"
    using nat_of_char_less_256 [of d] by (simp_all add: less_mult_imp_div_less)
  have h: "upperhex ! (of_char d div 16) \<noteq> CHR ''='' \<and> \<not> is_sep (upperhex ! (of_char d div 16))"
    "upperhex ! (of_char d mod 16) \<noteq> CHR ''='' \<and> \<not> is_sep (upperhex ! (of_char d mod 16))"
    using hex_digit [OF lt(1)] hex_digit [OF lt(2)] upperhex_plain by blast+
  from Cons h not_shouldEscape_plain [of d] show ?case
    by (auto simp: is_sep_def split: if_splits)
qed

lemma before_after_found:
  assumes "\<forall>x \<in> set xs. \<not> P x" and "P c"
  shows "before P (xs @ c # ys) = xs" and "after P (xs @ c # ys) = ys"
  using assms by (simp_all add: before_def after_def)

lemma before_after_none:
  assumes "\<forall>x \<in> set xs. \<not> P x"
  shows "before P xs = xs" and "after P xs = []"
proof -
  from assms have d: "dropWhile (\<lambda>c. \<not> P c) xs = []" by simp
  show "after P xs = []" unfolding after_def d by simp
  from assms show "before P xs = xs" by (simp add: before_def)
qed


lemma enc_pair_nonempty: "enc_pair p \<noteq> []"
  by (simp add: enc_pair_def)

lemma enc_pair_no_sep: "\<forall>c \<in> set (enc_pair p). \<not> is_sep c"
  using QueryEscape_plain by (auto simp: enc_pair_def is_sep_def)

lemma fold_concat_lists: "fold f (concat xss) = fold (fold f) xss"
  by (induction xss) simp_all

lemma Encode_fold_pairs:
  "Encode m = fold (\<lambda>p buf. write_pair (QueryEscape (fst p) @ ''='') (snd p) buf) (pairs_of m) []"
  by (simp add: Encode_def pairs_of_def fold_concat_lists fold_map comp_def)

lemma write_pair_eq:
  "write_pair (QueryEscape (fst p) @ ''='') (snd p) buf
     = (if buf = [] then [] else buf @ ''&'') @ enc_pair p"
  by (simp add: write_pair_def enc_pair_def)

lemma fold_write_pairs:
  "fold (\<lambda>p buf. write_pair (QueryEscape (fst p) @ ''='') (snd p) buf) ps buf
     = (if ps = [] then buf else (if buf = [] then [] else buf @ ''&'') @ join_pairs ps)"
proof (induction ps arbitrary: buf rule: join_pairs.induct)
  case 1
  then show ?case by simp
next
  case (2 p)
  then show ?case by (simp add: write_pair_eq)
next
  case (3 p q ps)
  show ?case
    using 3 [of "(if buf = [] then [] else buf @ ''&'') @ enc_pair p"] enc_pair_nonempty [of p]
    by (simp add: write_pair_eq)
qed

lemma Encode_join: "Encode m = join_pairs (pairs_of m)"
  by (simp add: Encode_fold_pairs fold_write_pairs)

lemma join_pairs_empty: "join_pairs ps = [] \<longleftrightarrow> ps = []"
  using enc_pair_nonempty by (induction ps rule: join_pairs.induct) auto

lemma parseQuery_piece:
  assumes "query \<noteq> []" and "before is_sep query = enc_pair p"
  shows "parseQuery m err query = parseQuery (add_pair p m) err (after is_sep query)"
proof -
  have k: "before (\<lambda>c. c = CHR ''='') (enc_pair p) = QueryEscape (fst p)"
    and v: "after (\<lambda>c. c = CHR ''='') (enc_pair p) = QueryEscape (snd p)"
    unfolding enc_pair_def
    using QueryEscape_plain by (auto intro!: before_after_found)
  show ?thesis
    by (subst parseQuery.simps)
       (simp add: assms k v QueryUnescape_QueryEscape enc_pair_nonempty add_pair_def)
qed

lemma parseQuery_join: "parseQuery m err (join_pairs ps) = (fold add_pair ps m, err)"
proof (induction ps arbitrary: m rule: join_pairs.induct)
  case 1
  then show ?case by (simp add: parseQuery_Nil)
next
  case (2 p)
  have "parseQuery m err (enc_pair p) = parseQuery (add_pair p m) err []"
    using parseQuery_piece [of "enc_pair p" p m err] enc_pair_nonempty [of p]
      before_after_none [OF enc_pair_no_sep [of p]]
    by simp
  then show ?case by (simp add: parseQuery_Nil)
next
  case (3 p q ps)
  let ?query = "enc_pair p @ CHR ''&'' # join_pairs (q # ps)"
  have s: "is_sep CHR ''&''" by (simp add: is_sep_def)
  have "parseQuery m err ?query = parseQuery (add_pair p m) err (join_pairs (q # ps))"
    using parseQuery_piece [of ?query p m err]
      before_after_found [OF enc_pair_no_sep [of p] s, of "join_pairs (q # ps)"]
    by simp
  with 3 show ?case by simp
qed

lemma fold_add_pair_key:
  "fold (\<lambda>v. add_pair (k, v)) vs acc
     = (if vs = [] then acc else fmupd k (index_Values acc k @ vs) acc)"
proof (induction vs arbitrary: acc)
  case Nil
  then show ?case by simp
next
  case (Cons v vs)
  have "index_Values (add_pair (k, v) acc) k = index_Values acc k @ [v]"
    by (simp add: add_pair_def index_Values_def)
  with Cons show ?case by (simp add: add_pair_def)
qed

lemma fold_keys_lookup:
  assumes "distinct ks"
  shows "fmlookup (fold (\<lambda>k acc. if vs k = [] then acc else fmupd k (index_Values acc k @ vs k) acc)
                      ks acc) x
           = (if x \<in> set ks \<and> vs x \<noteq> [] then Some (index_Values acc x @ vs x) else fmlookup acc x)"
  using assms
proof (induction ks arbitrary: acc)
  case Nil
  then show ?case by simp
next
  case (Cons k ks)
  then show ?case by (auto simp: index_Values_def)
qed

lemma sorted_keys: "distinct (sorted_list_of_fset A)" "sorted (sorted_list_of_fset A)"
  by (simp_all add: sorted_list_of_fset.rep_eq)

lemma fold_add_pairs_of: "fold add_pair (pairs_of m) fmempty = nonempty_part m"
proof (rule fmap_ext)
  fix x
  have "fmlookup (fold add_pair (pairs_of m) fmempty) x
          = (if x |\<in>| fmdom m \<and> index_Values m x \<noteq> [] then Some (index_Values m x) else None)"
    unfolding pairs_of_def fold_concat_lists fold_map comp_def fold_add_pair_key
    by (simp add: fold_keys_lookup [where vs = "index_Values m"] sorted_keys)
       (simp add: index_Values_def)
  also have "\<dots> = fmlookup (nonempty_part m) x"
    by (auto simp: nonempty_part_def index_Values_def split: option.splits dest: fmdom_notD)
  finally show "fmlookup (fold add_pair (pairs_of m) fmempty) x = fmlookup (nonempty_part m) x" .
qed

lemma reparsed_eq: "reparsed m = nonempty_part m"
  by (simp add: reparsed_def Encode_join parseQuery_join fold_add_pairs_of)

lemma sorted_list_of_ffilter:
  "sorted_list_of_fset (ffilter P A) = filter P (sorted_list_of_fset A)"
proof (rule sorted_distinct_set_unique)
  show "sorted (sorted_list_of_fset (ffilter P A))" "distinct (sorted_list_of_fset (ffilter P A))"
    by (rule sorted_keys)+
  show "sorted (filter P (sorted_list_of_fset A))" by (simp add: sorted_keys sorted_wrt_filter)
  show "distinct (filter P (sorted_list_of_fset A))" by (simp add: sorted_keys)
  show "set (sorted_list_of_fset (ffilter P A)) = set (filter P (sorted_list_of_fset A))"
    by auto
qed

lemma index_nonempty_part: "index_Values (nonempty_part m) k = index_Values m k"
  by (simp add: nonempty_part_def index_Values_def)

lemma concat_map_filter_nonempty:
  "concat (map f (filter (\<lambda>k. g k \<noteq> []) ks)) = concat (map f ks)" if "\<And>k. g k = [] \<Longrightarrow> f k = []"
  using that by (induction ks) auto

lemma pairs_of_nonempty_part: "pairs_of (nonempty_part m) = pairs_of m"
proof -
  have "pairs_of (nonempty_part m)
          = concat (map (\<lambda>k. map (Pair k) (index_Values m k))
              (filter (\<lambda>k. index_Values m k \<noteq> []) (sorted_list_of_fset (fmdom m))))"
    unfolding pairs_of_def index_nonempty_part
    by (simp add: nonempty_part_def sorted_list_of_ffilter)
  also have "\<dots> = pairs_of m"
    unfolding pairs_of_def by (rule concat_map_filter_nonempty) simp
  finally show ?thesis .
qed

lemma Encode_nonempty_part: "Encode (nonempty_part m) = Encode m"
  by (simp add: Encode_join pairs_of_nonempty_part)

lemma pairs_of_empty_iff: "pairs_of m = [] \<longleftrightarrow> fmdom (nonempty_part m) = {||}"
proof -
  have "pairs_of m = [] \<longleftrightarrow> (\<forall>k. k |\<in>| fmdom m \<longrightarrow> index_Values m k = [])"
    by (auto simp: pairs_of_def)
  also have "\<dots> \<longleftrightarrow> fmdom (nonempty_part m) = {||}"
    by (auto simp: nonempty_part_def)
  finally show ?thesis .
qed

lemma Encode_empty_iff: "Encode m = [] \<longleftrightarrow> fmdom (nonempty_part m) = {||}"
  by (simp add: Encode_join join_pairs_empty pairs_of_empty_iff)

lemma nonempty_part_idem: "nonempty_part (nonempty_part m) = nonempty_part m"
  by (rule fmap_ext) (simp add: nonempty_part_def index_Values_def)

lemma nonempty_part_with_token:
  "nonempty_part (with_token (nonempty_part m) tok) = nonempty_part (with_token m tok)"
  by (rule fmap_ext)
     (auto simp: with_token_def nonempty_part_def index_Values_def split: option.splits)

lemma with_token_nonempty:
  "nonempty_part (with_token (nonempty_part m) tok) = with_token (nonempty_part m) tok"
  by (rule fmap_ext)
     (auto simp: with_token_def nonempty_part_def index_Values_def split: option.splits)

lemma String_query:
  "String env w fb =
     Ok (url (objs w ! fb) @ ''/.json'' @ query_part (with_token (params_of w fb) (resolved_token env w fb)),
         w\<lparr>vals := vals w @ [with_token (nonempty_part (params_of w fb)) (resolved_token env w fb)],
           calls := calls w @ token_calls w fb\<rparr>)"
proof -
  let ?copy = "with_token (nonempty_part (params_of w fb)) (resolved_token env w fb)"
  let ?full = "with_token (params_of w fb) (resolved_token env w fb)"
  have e: "Encode ?copy = Encode ?full"
    using Encode_nonempty_part [of ?copy] Encode_nonempty_part [of ?full]
    by (simp add: nonempty_part_with_token)
  have d: "fmdom ?copy \<noteq> {||} \<longleftrightarrow> Encode ?full \<noteq> []"
    using Encode_empty_iff [of ?copy] by (simp add: with_token_nonempty e)
  show ?thesis
    unfolding String_eq reparsed_eq by (simp add: query_part_def d e)
qed

subsection \<open>\<^verbatim>\<open>String\<close> and \<^verbatim>\<open>Child\<close> on the heap\<close>

lemma String_times_frame:
  "\<exists>w'. String_times env w fb n = Ok w' \<and> objs w' = objs w
         \<and> take (length (vals w)) (vals w') = vals w"
proof (induction n arbitrary: w)
  case 0
  then show ?case by simp
next
  case (Suc n)
  let ?w1 = "w\<lparr>vals := vals w @ [with_token (nonempty_part (params_of w fb)) (resolved_token env w fb)],
                calls := calls w @ token_calls w fb\<rparr>"
  from Suc [of ?w1] obtain w' where w': "String_times env ?w1 fb n = Ok w'" "objs w' = objs ?w1"
    "take (length (vals ?w1)) (vals w') = vals ?w1" by blast
  from w'(3) have "take (length (vals w)) (take (length (vals ?w1)) (vals w')) = vals w"
    by simp
  then have "take (length (vals w)) (vals w') = vals w" by (simp add: min_def)
  with w' show ?case by (simp add: String_query and_then_def)
qed

lemma params_of_frame:
  assumes "valid_ref w fb" and "objs w' = objs w" and "take (length (vals w)) (vals w') = vals w"
  shows "params_of w' fb = params_of w fb"
proof (cases "params (objs w ! fb)")
  case None
  with assms(2) show ?thesis by (simp add: params_of_def)
next
  case (Some a)
  with assms(1) have a: "a < length (vals w)" by (simp add: valid_ref_def)
  have "vals w ! a = take (length (vals w)) (vals w') ! a" using assms(3) by simp
  also have "\<dots> = vals w' ! a" using a by simp
  finally show ?thesis using Some assms(2) by (simp add: params_of_def)
qed

text \<open>
  Claim C10. One call of \<^verbatim>\<open>String\<close> on an allocated reference returns and leaves the heap
  as it was but for one new map, the copy that it parsed and to which it added the token,
  and for the record of the call of the token source. After any number of calls the structs
  (hence the token source of the reference) and every map allocated before, hence the query
  map of the reference, are as they were.
\<close>

theorem String_does_not_mutate:
  assumes "valid_ref w fb"
  shows "(\<exists>s. String env w fb
               = Ok (s, w\<lparr>vals := vals w @ [with_token (nonempty_part (params_of w fb))
                                               (resolved_token env w fb)],
                           calls := calls w @ token_calls w fb\<rparr>))
       \<and> (\<exists>w'. String_times env w fb n = Ok w'
              \<and> objs w' = objs w
              \<and> take (length (vals w)) (vals w') = vals w
              \<and> params_of w' fb = params_of w fb
              \<and> tokenSrc (objs w' ! fb) = tokenSrc (objs w ! fb))"
proof -
  from String_times_frame obtain w' where w': "String_times env w fb n = Ok w'"
    "objs w' = objs w" "take (length (vals w)) (vals w') = vals w" by blast
  with params_of_frame [OF assms w'(2,3)] show ?thesis by (simp add: String_query)
qed

theorem String_does_not_mutate_witness:
  "valid_ref token_world 0
   \<and> (\<exists>w'. String_times (respond (response 200 [])) token_world 0 3 = Ok w'
            \<and> objs w' = objs token_world
            \<and> params_of w' 0 = fmempty
            \<and> fmlookup (params_of w' 0) accessTokenParam = None
            \<and> tokenSrc (objs w' ! 0) = Some 0)"
proof -
  have v: "valid_ref token_world 0"
    by (simp add: valid_ref_def token_world_def example_world_def example_ref_def)
  have p: "params_of token_world 0 = fmempty"
    by (simp add: params_of_def token_world_def example_world_def example_ref_def)
  have t: "tokenSrc (objs token_world ! 0) = Some 0"
    by (simp add: token_world_def example_world_def example_ref_def)
  from String_does_not_mutate [OF v, of "respond (response 200 [])" 3] v p t show ?thesis
    by auto
qed

lemma Child_eq:
  assumes "valid_ref w r"
  shows "Child w r name =
           (length (objs w),
            w\<lparr>objs := objs w @ [\<lparr>url = url (objs w ! r) @ ''/'' @ name,
                                 params = Some (length (vals w)), client = client (objs w ! r),
                                 tokenSrc = tokenSrc (objs w ! r), watchMtx = False,
                                 watching = False, stopWatching = Some (chans w)\<rparr>],
              vals := vals w @ [params_of w r],
              chans := Suc (chans w)\<rparr>)"
  using assms
  by (auto simp: Child_def copy_def make_Values_def make_chan_def new_Firebase_def Let_def
      range_assign_eq params_of_def valid_ref_def nth_append split: option.splits)

lemma mutate_frame:
  assumes "mutate w r ms = Ok w'" and "r \<noteq> c" and "params (objs w ! r) \<noteq> Some p"
  shows "objs w' ! c = objs w ! c \<and> vals w' ! p = vals w ! p"
  using assms
proof (induction ms arbitrary: w)
  case Nil
  then show ?case by simp
next
  case (Cons m ms)
  show ?case
  proof (cases m)
    case (CallAuth t)
    with Cons.prems obtain w1 where a: "Auth w r t = Ok w1" and m: "mutate w1 r ms = Ok w'"
      by (auto simp: and_then_def split: exec.splits)
    from a obtain a' where a': "params (objs w ! r) = Some a'"
      "w1 = w\<lparr>vals := (vals w)[a' := fmupd authParam [t] (vals w ! a')]\<rparr>"
      by (auto simp: Auth_def Values_Set_def map_assign_def split: option.splits)
    with Cons.prems have "a' \<noteq> p" by auto
    with a' Cons.IH [OF m Cons.prems(2)] Cons.prems(3) show ?thesis by simp
  next
    case CallUnauth
    with Cons.prems have m: "mutate (Unauth w r) r ms = Ok w'" by simp
    have o: "objs (Unauth w r) = objs w"
      by (simp add: Unauth_def Values_Del_def split: option.splits)
    have v: "vals (Unauth w r) ! p = vals w ! p"
      using Cons.prems(3) by (auto simp: Unauth_def Values_Del_def split: option.splits)
    from Cons.IH [OF m Cons.prems(2)] o v Cons.prems(3) show ?thesis by simp
  next
    case (CallAccessToken src)
    with Cons.prems have m: "mutate (AccessToken w r src) r ms = Ok w'" by simp
    have o: "objs (AccessToken w r src) ! c = objs w ! c"
      using Cons.prems(2) by (simp add: AccessToken_def)
    have q: "params (objs (AccessToken w r src) ! r) = params (objs w ! r)"
      by (cases "r < length (objs w)") (simp_all add: AccessToken_def list_update_beyond)
    have v: "vals (AccessToken w r src) = vals w" by (simp add: AccessToken_def)
    from Cons.IH [OF m Cons.prems(2)] o q v Cons.prems(3) show ?thesis by simp
  qed
qed

text \<open>
  Claim C5, as the code has it. Let \<open>c\<close> be \<^verbatim>\<open>r.Child(name)\<close>, derived when \<open>r\<close> was
  allocated, and let any \<^verbatim>\<open>Auth\<close>, \<^verbatim>\<open>Unauth\<close> and \<^verbatim>\<open>AccessToken\<close> calls on \<open>r\<close> follow. The
  query map and the token source of \<open>c\<close> are still those that \<open>r\<close> had at the derivation,
  and \<^verbatim>\<open>c.String()\<close> is the path of \<open>r\<close> at the derivation, the name and \<^verbatim>\<open>/.json\<close>, followed
  by the encoding of that query map with the token added that the token source gives at the
  time of rendering; when \<open>r\<close> had no token source at the derivation, by the encoding of
  that query map itself.
\<close>

theorem Child_render:
  assumes "valid_ref w r" and "Child w r name = (c, w1)" and "mutate w1 r ms = Ok w2"
  shows "params_of w2 c = params_of w r
       \<and> tokenSrc (objs w2 ! c) = tokenSrc (objs w ! r)
       \<and> result (String env w2 c)
           = Ok (url (objs w ! r) @ ''/'' @ name @ ''/.json''
                   @ query_part (with_token (params_of w r) (resolved_token env w2 c)))
       \<and> (tokenSrc (objs w ! r) = None \<longrightarrow>
            result (String env w2 c)
              = Ok (url (objs w ! r) @ ''/'' @ name @ ''/.json'' @ query_part (params_of w r)))"
proof -
  let ?child = "\<lparr>url = url (objs w ! r) @ ''/'' @ name, params = Some (length (vals w)),
                 client = client (objs w ! r), tokenSrc = tokenSrc (objs w ! r), watchMtx = False,
                 watching = False, stopWatching = Some (chans w)\<rparr>"
  from assms(1,2) have c: "c = length (objs w)"
    and w1: "w1 = w\<lparr>objs := objs w @ [?child], vals := vals w @ [params_of w r],
                    chans := Suc (chans w)\<rparr>"
    by (simp_all add: Child_eq)
  from assms(1) have r: "r < length (objs w)" by (simp add: valid_ref_def)
  with c have rc: "r \<noteq> c" by simp
  from assms(1) r have "params (objs w1 ! r) \<noteq> Some (length (vals w))"
    by (auto simp: w1 valid_ref_def nth_append split: option.splits)
  from mutate_frame [OF assms(3) rc this]
  have o: "objs w2 ! c = ?child" and v: "vals w2 ! length (vals w) = params_of w r"
    by (simp_all add: w1 c)
  from o v have p: "params_of w2 c = params_of w r" by (simp add: params_of_def)
  from o have t: "tokenSrc (objs w2 ! c) = tokenSrc (objs w ! r)" by simp
  have s: "result (String env w2 c)
             = Ok (url (objs w ! r) @ ''/'' @ name @ ''/.json''
                     @ query_part (with_token (params_of w r) (resolved_token env w2 c)))"
    by (simp add: String_query result_def and_then_def p o)
  have "resolved_token env w2 c = None" if "tokenSrc (objs w ! r) = None"
    using that t by (simp add: resolved_token_def)
  with s p t show ?thesis by (simp add: with_token_def)
qed

lemma result_String:
  "result (String env w fb)
     = Ok (url (objs w ! fb) @ ''/.json''
             @ query_part (with_token (params_of w fb) (resolved_token env w fb)))"
  by (simp add: String_query result_def and_then_def)

lemma Child_example: "Child token_world 0 ''b'' = (1, child_world)"
proof -
  have v: "valid_ref token_world 0"
    by (simp add: valid_ref_def token_world_def example_world_def example_ref_def)
  show ?thesis
    unfolding Child_eq [OF v]
    by (simp add: token_world_def example_world_def example_ref_def child_world_def params_of_def)
qed

lemma Encode_token: "Encode (fmupd accessTokenParam [''tok''] fmempty) = ''access_token=tok''"
  by (simp add: Encode_def sorted_list_of_fset.rep_eq index_Values_def write_pair_def
      accessTokenParam_def shouldEscape_def alnum_def)

text \<open>
  Claim C5 as stated fails on a reference with a token source: the child renders the query
  \<^verbatim>\<open>access_token=tok\<close>, while the encoding of the query map of the parent is empty.
\<close>

theorem Child_render_counterexample:
  "Child token_world 0 ''b'' = (1, child_world)
   \<and> result (String (respond (response 200 [])) child_world 1)
       = Ok ''https://example.com/a/b/.json?access_token=tok''
   \<and> Encode (params_of token_world 0) = []"
proof -
  have p: "params_of child_world 1 = fmempty" "params_of token_world 0 = fmempty"
    by (simp_all add: params_of_def child_world_def token_world_def example_world_def example_ref_def)
  have t: "resolved_token (respond (response 200 [])) child_world 1 = Some ''tok''"
    by (simp add: resolved_token_def child_world_def respond_def)
  have u: "url (objs child_world ! 1) = ''https://example.com/a/b''"
    by (simp add: child_world_def)
  have "result (String (respond (response 200 [])) child_world 1)
          = Ok ''https://example.com/a/b/.json?access_token=tok''"
    unfolding result_String p t u
    by (simp add: with_token_def query_part_def Encode_token index_Values_def)
  then show ?thesis
    by (simp add: Child_example p Encode_empty)
qed

lemma Encode_auth: "Encode (fmupd authParam [''t''] fmempty) = ''auth=t''"
  by (simp add: Encode_def sorted_list_of_fset.rep_eq index_Values_def write_pair_def
      authParam_def shouldEscape_def alnum_def)

theorem Child_render_witness:
  "valid_ref authed_world 0
   \<and> Child authed_world 0 ''b'' = (1, derived_world)
   \<and> mutate derived_world 0 [CallAuth ''u'', CallUnauth, CallAccessToken (Some 0)] = Ok mutated_world
   \<and> params_of mutated_world 0 = fmempty
   \<and> tokenSrc (objs mutated_world ! 0) = Some 0
   \<and> params_of mutated_world 1 = fmupd authParam [''t''] fmempty
   \<and> tokenSrc (objs mutated_world ! 1) = None
   \<and> result (String (respond (response 200 [])) mutated_world 1)
       = Ok ''https://example.com/a/b/.json?auth=t''"
proof -
  have v: "valid_ref authed_world 0"
    by (simp add: valid_ref_def authed_world_def example_world_def example_ref_def)
  have c: "Child authed_world 0 ''b'' = (1, derived_world)"
    unfolding Child_eq [OF v]
    by (simp add: authed_world_def example_world_def example_ref_def derived_world_def
        child_ref_def params_of_def)
  have m: "mutate derived_world 0 [CallAuth ''u'', CallUnauth, CallAccessToken (Some 0)]
             = Ok mutated_world"
    by (simp add: Auth_def Unauth_def AccessToken_def Values_Set_def Values_Del_def map_assign_def
        and_then_def derived_world_def mutated_world_def example_ref_def fmdrop_fmupd_same)
  have p: "params_of authed_world 0 = fmupd authParam [''t''] fmempty"
    "params_of mutated_world 0 = fmempty"
    "tokenSrc (objs authed_world ! 0) = None" "tokenSrc (objs mutated_world ! 0) = Some 0"
    "url (objs authed_world ! 0) = ''https://example.com/a''"
    by (simp_all add: params_of_def authed_world_def mutated_world_def example_world_def
        example_ref_def)
  note t = Child_render [OF v c m, of "respond (response 200 [])"]
  from t have a: "params_of mutated_world 1 = params_of authed_world 0"
    and b: "tokenSrc (objs mutated_world ! 1) = tokenSrc (objs authed_world ! 0)"
    by blast+
  from t p(3) have "result (String (respond (response 200 [])) mutated_world 1)
      = Ok (url (objs authed_world ! 0) @ ''/'' @ ''b'' @ ''/.json''
              @ query_part (params_of authed_world 0))"
    by blast
  then have r: "result (String (respond (response 200 [])) mutated_world 1)
      = Ok ''https://example.com/a/b/.json?auth=t''"
    unfolding p by (simp add: query_part_def Encode_auth)
  from v c m p a b r show ?thesis by simp
qed

end
